theory Spec2Isabelle
  imports Main "HOL-Library.Sublist" "HOL-Library.AList"
begin

chapter \<open>The model of \<open>app.py\<close>\<close>

section \<open>Characters and strings of the Python runtime\<close>

text \<open>
  The resume text is a Python \<open>str\<close>, a sequence of code points. A \<open>char\<close> of the model is
  a code point from U+0000 to U+00FF, and every such code point has the properties that the
  Unicode tables of the interpreter give it: as white space, as word character, as digit,
  and its lower case. A text with a code point above U+00FF has no counterpart in the model.
  Three characters above U+00FF occur in patterns of \<open>app.py\<close> (U+2022, U+2013, U+2014);
  no \<open>char\<close> is equal to one of them, and they are left out of the classes where they
  occur; each place says so.
\<close>

definition upper_letters :: string where
  "upper_letters = ''ABCDEFGHIJKLMNOPQRSTUVWXYZ''"

definition lower_letters :: string where
  "lower_letters = ''abcdefghijklmnopqrstuvwxyz''"

text \<open>The capital letters from U+00C0 to U+00DE, without the multiplication sign U+00D7,
  and their small letters from U+00E0 to U+00FE, in the same order.\<close>

definition latin1_upper :: string where
  "latin1_upper =
     [CHR 0xC0, CHR 0xC1, CHR 0xC2, CHR 0xC3, CHR 0xC4, CHR 0xC5, CHR 0xC6, CHR 0xC7, CHR
      0xC8, CHR 0xC9, CHR 0xCA, CHR 0xCB, CHR 0xCC, CHR 0xCD, CHR 0xCE, CHR 0xCF, CHR
      0xD0, CHR 0xD1, CHR 0xD2, CHR 0xD3, CHR 0xD4, CHR 0xD5, CHR 0xD6, CHR 0xD8, CHR
      0xD9, CHR 0xDA, CHR 0xDB, CHR 0xDC, CHR 0xDD, CHR 0xDE]"

definition latin1_lower :: string where
  "latin1_lower =
     [CHR 0xE0, CHR 0xE1, CHR 0xE2, CHR 0xE3, CHR 0xE4, CHR 0xE5, CHR 0xE6, CHR 0xE7, CHR
      0xE8, CHR 0xE9, CHR 0xEA, CHR 0xEB, CHR 0xEC, CHR 0xED, CHR 0xEE, CHR 0xEF, CHR
      0xF0, CHR 0xF1, CHR 0xF2, CHR 0xF3, CHR 0xF4, CHR 0xF5, CHR 0xF6, CHR 0xF8, CHR
      0xF9, CHR 0xFA, CHR 0xFB, CHR 0xFC, CHR 0xFD, CHR 0xFE]"

text \<open>The other code points below U+0100 that \<open>str.isalnum\<close> accepts: the ordinal
  indicators U+00AA and U+00BA, the superscripts U+00B2, U+00B3 and U+00B9, the micro sign
  U+00B5, the fractions U+00BC to U+00BE, and the small letters U+00DF and U+00FF, which have
  no capital below U+0100.\<close>

definition latin1_other :: string where
  "latin1_other =
     [CHR 0xAA, CHR 0xB2, CHR 0xB3, CHR 0xB5, CHR 0xB9, CHR 0xBA, CHR 0xBC, CHR 0xBD, CHR
      0xBE, CHR 0xDF, CHR 0xFF]"

text \<open>\<open>\d\<close>: the decimal digits; below U+0100 these are \<open>0\<close> to \<open>9\<close>.\<close>

definition is_digit :: "char \<Rightarrow> bool" where
  "is_digit c \<longleftrightarrow> c \<in> set ''0123456789''"

text \<open>The classes \<open>[A-Z]\<close>, \<open>[a-z]\<close> and \<open>[A-Za-z]\<close> of a pattern.\<close>

definition ascii_upper :: "char \<Rightarrow> bool" where
  "ascii_upper c \<longleftrightarrow> c \<in> set upper_letters"

definition ascii_lower :: "char \<Rightarrow> bool" where
  "ascii_lower c \<longleftrightarrow> c \<in> set lower_letters"

definition ascii_letter :: "char \<Rightarrow> bool" where
  "ascii_letter c \<longleftrightarrow> ascii_upper c \<or> ascii_lower c"

text \<open>\<open>\w\<close>: the underscore and what \<open>str.isalnum\<close> accepts.\<close>

definition is_word :: "char \<Rightarrow> bool" where
  "is_word c \<longleftrightarrow> ascii_letter c \<or> is_digit c \<or> c = CHR ''_'' \<or>
     c \<in> set (latin1_upper @ latin1_lower @ latin1_other)"

text \<open>\<open>str.isspace\<close>, the white space of \<open>str.strip\<close> and \<open>str.split\<close>, and \<open>\s\<close>: tab, line
  feed, vertical tab, form feed, carriage return, the four separators U+001C to U+001F, the
  space, the next-line control U+0085 and the no-break space U+00A0.\<close>

definition is_space :: "char \<Rightarrow> bool" where
  "is_space c \<longleftrightarrow> c \<in> set [CHR 0x09, CHR 0x0A, CHR 0x0B, CHR 0x0C, CHR 0x0D,
                           CHR 0x1C, CHR 0x1D, CHR 0x1E, CHR 0x1F, CHR 0x20, CHR 0x85, CHR 0xA0]"

text \<open>The lower case of a character, which below U+0100 is again one character below
  U+0100.\<close>

definition to_lower :: "char \<Rightarrow> char" where
  "to_lower c =
     (case map_of (zip (upper_letters @ latin1_upper) (lower_letters @ latin1_lower)) c of
        Some d \<Rightarrow> d | None \<Rightarrow> c)"

text \<open>The upper case of an ASCII letter.\<close>

definition to_upper :: "char \<Rightarrow> char" where
  "to_upper c = (case map_of (zip lower_letters upper_letters) c of Some d \<Rightarrow> d | None \<Rightarrow> c)"

text \<open>\<open>s.lower()\<close>\<close>

definition lower :: "string \<Rightarrow> string" where
  "lower s = map to_lower s"

text \<open>\<open>s.strip()\<close>\<close>

definition strip :: "string \<Rightarrow> string" where
  "strip s = rev (dropWhile is_space (rev (dropWhile is_space s)))"

text \<open>\<open>s.split(c)\<close> for a one-character separator: the pieces between the separators;
  never an empty list.\<close>

fun split_on :: "char \<Rightarrow> string \<Rightarrow> string list" where
  "split_on sep [] = [[]]"
| "split_on sep (c # cs) =
     (if c = sep then [] # split_on sep cs
      else (case split_on sep cs of l # ls \<Rightarrow> (c # l) # ls | [] \<Rightarrow> [[c]]))"

text \<open>\<open>s.split('\n')\<close>\<close>

definition split_lines :: "string \<Rightarrow> string list" where
  "split_lines s = split_on (CHR 0x0A) s"

text \<open>\<open>s.split()\<close>: the maximal runs of non-space characters.\<close>

fun split_ws :: "string \<Rightarrow> string list" where
  "split_ws [] = []"
| "split_ws (c # cs) =
     (if is_space c then split_ws cs
      else (case cs of
              [] \<Rightarrow> [[c]]
            | d # ds \<Rightarrow> if is_space d then [c] # split_ws cs
                        else (case split_ws cs of w # ws \<Rightarrow> (c # w) # ws | [] \<Rightarrow> [[c]])))"

text \<open>\<open>k in s\<close> for strings: \<open>k\<close> occurs in \<open>s\<close> as a contiguous piece.\<close>

fun contains :: "string \<Rightarrow> string \<Rightarrow> bool" where
  "contains k [] \<longleftrightarrow> k = []"
| "contains k (c # cs) \<longleftrightarrow> prefix k (c # cs) \<or> contains k cs"

text \<open>\<open>any(k in s for k in ks)\<close>\<close>

definition any_in :: "string list \<Rightarrow> string \<Rightarrow> bool" where
  "any_in ks s \<longleftrightarrow> list_ex (\<lambda>k. contains k s) ks"

section \<open>Regular expressions of the \<open>re\<close> module\<close>

text \<open>
  The patterns of \<open>app.py\<close> use literals, character classes, sequence, alternation,
  greedy repetition of a single character class, the optional \<open>?\<close>, capture groups, and the
  assertions \<open>\b\<close>, \<open>^\<close> and \<open>$\<close>. A pattern is written as a term of \<open>regex\<close>; the matcher
  lists all ways to match at a position in the order in which the backtracking matcher of
  \<open>re\<close> tries them, so the head of the list is the match \<open>re\<close> reports.
\<close>

datatype regex =
    Eps
  | Cls "char \<Rightarrow> bool"
  | Seq regex regex
  | Alt regex regex
  | Rep "char \<Rightarrow> bool" nat "nat option"
  | Opt regex
  | Grp nat regex
  | WordB
  | Bol
  | Eol

text \<open>A position: the character before the cursor (none at the start of the text) and the
  text from the cursor on.\<close>

type_synonym pos = "char option \<times> string"

text \<open>Captured groups: group number and captured text, latest first.\<close>

type_synonym caps = "(nat \<times> string) list"

text \<open>The positions after 0, 1, 2, ... characters of the class, at most \<open>hi\<close> of them.\<close>

fun run :: "(char \<Rightarrow> bool) \<Rightarrow> nat option \<Rightarrow> pos \<Rightarrow> pos list" where
  "run P hi (p, []) = [(p, [])]"
| "run P hi (p, c # cs) =
     (p, c # cs) # (if P c \<and> hi \<noteq> Some 0
                    then run P (map_option (\<lambda>n. n - 1) hi) (Some c, cs) else [])"

definition word_before :: "pos \<Rightarrow> bool" where
  "word_before q = (case fst q of None \<Rightarrow> False | Some c \<Rightarrow> is_word c)"

definition word_after :: "pos \<Rightarrow> bool" where
  "word_after q = (case snd q of [] \<Rightarrow> False | c # _ \<Rightarrow> is_word c)"

text \<open>\<open>\b\<close> holds where exactly one of the two neighbours is a word character.\<close>

definition at_boundary :: "pos \<Rightarrow> bool" where
  "at_boundary q \<longleftrightarrow> word_before q \<noteq> word_after q"

fun rmatch :: "regex \<Rightarrow> pos \<times> caps \<Rightarrow> (pos \<times> caps) list" where
  "rmatch Eps st = [st]"
| "rmatch (Cls P) ((p, s), g) =
     (case s of [] \<Rightarrow> [] | c # cs \<Rightarrow> if P c then [((Some c, cs), g)] else [])"
| "rmatch (Seq a b) st = concat (map (rmatch b) (rmatch a st))"
| "rmatch (Alt a b) st = rmatch a st @ rmatch b st"
| "rmatch (Rep P lo hi) (q, g) = map (\<lambda>q'. (q', g)) (rev (drop lo (run P hi q)))"
| "rmatch (Opt a) st = rmatch a st @ [st]"
| "rmatch (Grp n a) ((p, s), g) =
     map (\<lambda>((p', s'), g'). ((p', s'), (n, take (length s - length s') s) # g'))
         (rmatch a ((p, s), g))"
| "rmatch WordB (q, g) = (if at_boundary q then [(q, g)] else [])"
| "rmatch Bol ((p, s), g) = (if p = None then [((p, s), g)] else [])"
| "rmatch Eol ((p, s), g) = (if s = [] \<or> s = [CHR 0x0A] then [((p, s), g)] else [])"

text \<open>A literal character, a literal character under \<open>re.IGNORECASE\<close>, and literal text.\<close>

definition Chr :: "char \<Rightarrow> regex" where
  "Chr c = Cls (\<lambda>x. x = c)"

definition ChrI :: "char \<Rightarrow> regex" where
  "ChrI c = Cls (\<lambda>x. to_lower x = to_lower c)"

fun Lit :: "string \<Rightarrow> regex" where
  "Lit [] = Eps"
| "Lit (c # cs) = Seq (Chr c) (Lit cs)"

fun LitI :: "string \<Rightarrow> regex" where
  "LitI [] = Eps"
| "LitI (c # cs) = Seq (ChrI c) (LitI cs)"

text \<open>A match object: the text skipped before the match, the matched text (\<open>group()\<close>), the
  captured groups, and the position after the match.\<close>

record rematch =
  skipped :: string
  matched :: string
  groups :: caps
  m_end :: pos

text \<open>\<open>m.group(n)\<close> for a group that took part in the match.\<close>

definition group :: "rematch \<Rightarrow> nat \<Rightarrow> string option" where
  "group m n = map_of (groups m) n"

text \<open>The first match starting at the cursor or later.\<close>

fun search_from :: "regex \<Rightarrow> char option \<Rightarrow> string \<Rightarrow> rematch option" where
  "search_from r p [] =
     (case rmatch r ((p, []), []) of
        [] \<Rightarrow> None
      | (q, g) # _ \<Rightarrow> Some \<lparr>skipped = [], matched = [], groups = g, m_end = q\<rparr>)"
| "search_from r p (c # cs) =
     (case rmatch r ((p, c # cs), []) of
        [] \<Rightarrow> map_option (\<lambda>m. m\<lparr>skipped := c # skipped m\<rparr>) (search_from r (Some c) cs)
      | (q, g) # _ \<Rightarrow>
          Some \<lparr>skipped = [], matched = take (length (c # cs) - length (snd q)) (c # cs),
                groups = g, m_end = q\<rparr>)"

text \<open>\<open>re.search(r, s)\<close> and \<open>re.match(r, s)\<close>\<close>

definition re_search :: "regex \<Rightarrow> string \<Rightarrow> rematch option" where
  "re_search r s = search_from r None s"

definition re_match :: "regex \<Rightarrow> string \<Rightarrow> rematch option" where
  "re_match r s =
     (case rmatch r ((None, s), []) of
        [] \<Rightarrow> None
      | (q, g) # _ \<Rightarrow>
          Some \<lparr>skipped = [], matched = take (length s - length (snd q)) s, groups = g, m_end = q\<rparr>)"

text \<open>
  The successive non-overlapping matches from a position, and the text left after the last
  one. Every pattern that \<open>app.py\<close> passes to \<open>findall\<close>, \<open>split\<close> or \<open>sub\<close> consumes at least
  one character when it matches; the scan stops at a match that consumes nothing.
\<close>

function finditer_from :: "regex \<Rightarrow> char option \<Rightarrow> string \<Rightarrow> rematch list \<times> string" where
  "finditer_from r p s =
     (case search_from r p s of
        None \<Rightarrow> ([], s)
      | Some m \<Rightarrow>
          if length (snd (m_end m)) < length s
          then (case finditer_from r (fst (m_end m)) (snd (m_end m)) of
                  (ms, t) \<Rightarrow> (m # ms, t))
          else ([m], snd (m_end m)))"
  by pat_completeness auto
termination
  by (relation "measure (\<lambda>(r, p, s). length s)") (auto simp: case_prod_beta)

declare finditer_from.simps [simp del]

text \<open>\<open>re.findall(r, s)\<close> for a pattern with exactly one group: the text of group 1 of each
  match, the empty string where the group took no part.\<close>

definition re_findall1 :: "regex \<Rightarrow> string \<Rightarrow> string list" where
  "re_findall1 r s =
     map (\<lambda>m. case group m 1 of None \<Rightarrow> [] | Some t \<Rightarrow> t) (fst (finditer_from r None s))"

text \<open>\<open>re.split(r, s)\<close> for a pattern without groups.\<close>

definition re_split :: "regex \<Rightarrow> string \<Rightarrow> string list" where
  "re_split r s = (case finditer_from r None s of (ms, t) \<Rightarrow> map skipped ms @ [t])"

text \<open>\<open>re.sub(r, '', s)\<close>\<close>

definition re_sub_empty :: "regex \<Rightarrow> string \<Rightarrow> string" where
  "re_sub_empty r s = (case finditer_from r None s of (ms, t) \<Rightarrow> concat (map skipped ms) @ t)"

text \<open>Sequences and alternatives of several parts.\<close>

definition Seqs :: "regex list \<Rightarrow> regex" where
  "Seqs rs = foldr Seq rs Eps"

fun Alts :: "regex list \<Rightarrow> regex" where
  "Alts [] = Alt Eps Eps"
| "Alts [r] = r"
| "Alts (r # rs) = Alt r (Alts rs)"

section \<open>Python values, dictionaries and exceptions\<close>

datatype pyerr = KeyError | IndexError | ValueError | TypeError | AttributeError

text \<open>The values stored in the dictionaries of \<open>app.py\<close>: strings and lists of strings.\<close>

datatype pyval = PStr string | PList "string list"

text \<open>A dictionary with string keys, in insertion order. \<open>d[k] = v\<close> is \<open>AList.update k v d\<close>,
  \<open>d.get(k)\<close> is \<open>map_of d k\<close>, and \<open>{}\<close> is the empty list.\<close>

type_synonym pydict = "(string \<times> pyval) list"

definition bindE :: "pyerr + 'a \<Rightarrow> ('a \<Rightarrow> pyerr + 'b) \<Rightarrow> pyerr + 'b" where
  "bindE x f = (case x of Inl e \<Rightarrow> Inl e | Inr v \<Rightarrow> f v)"

text \<open>\<open>xs[n]\<close> for \<open>n \<ge> 0\<close>\<close>

definition py_index :: "'a list \<Rightarrow> nat \<Rightarrow> pyerr + 'a" where
  "py_index xs n = (if n < length xs then Inr (xs ! n) else Inl IndexError)"

text \<open>\<open>d[k]\<close>\<close>

definition py_getitem :: "(string \<times> 'v) list \<Rightarrow> string \<Rightarrow> pyerr + 'v" where
  "py_getitem d k = (case map_of d k of None \<Rightarrow> Inl KeyError | Some v \<Rightarrow> Inr v)"

text \<open>\<open>s.startswith(k)\<close>\<close>

definition startswith :: "string \<Rightarrow> string \<Rightarrow> bool" where
  "startswith s k \<longleftrightarrow> prefix k s"

section \<open>\<open>extract_work_experience\<close>\<close>

text \<open>\<open>r'\bat\b'\<close> with \<open>re.IGNORECASE\<close>\<close>

definition at_re :: regex where
  "at_re = Seqs [WordB, LitI ''at'', WordB]"

text \<open>\<open>r'[|\-\<bullet>,...]'\<close>: the bar, the hyphen and the comma; the bullet and the two long
  dashes of the class are not ASCII.\<close>

definition sep_re :: regex where
  "sep_re = Cls (\<lambda>c. c \<in> set ''|-,'')"

text \<open>The class of the hyphen and the en dash, of which the hyphen is ASCII.\<close>

definition dash :: regex where
  "dash = Cls (\<lambda>c. c = CHR ''-'')"

text \<open>The date range pattern of line 215: a word, a year, a dash, a word, a year; or a
  year, a dash, a year; or a year, a dash, \<open>Present\<close>; or \<open>Present\<close>; or \<open>Current\<close>; all in
  one group.\<close>

definition date_re :: regex where
  "date_re = Grp 1 (Alts [
     Seqs [Rep is_word 1 None, Rep is_space 0 None, Rep is_digit 4 (Some 4), Rep is_space 0 None,
           dash, Rep is_space 0 None, Rep is_word 1 None, Rep is_space 0 None,
           Rep is_digit 4 (Some 4)],
     Seqs [Rep is_digit 4 (Some 4), Rep is_space 0 None, dash, Rep is_space 0 None,
           Rep is_digit 4 (Some 4)],
     Seqs [Rep is_digit 4 (Some 4), Rep is_space 0 None, dash, Rep is_space 0 None,
           Lit ''Present''],
     Lit ''Present'',
     Lit ''Current''])"

text \<open>\<open>r'(19|20)\d{2}|Present|Current'\<close>\<close>

definition year_or_now_re :: regex where
  "year_or_now_re = Alts [
     Seqs [Grp 1 (Alt (Lit ''19'') (Lit ''20'')), Rep is_digit 2 (Some 2)],
     Lit ''Present'',
     Lit ''Current'']"

text \<open>\<open>r'(19|20)\d{2}'\<close>\<close>

definition year_re :: regex where
  "year_re = Seqs [Grp 1 (Alt (Lit ''19'') (Lit ''20'')), Rep is_digit 2 (Some 2)]"

text \<open>The pattern of line 229: at the start, a bullet or a hyphen, then spaces; the bullet
  is not ASCII.\<close>

definition bullet_re :: regex where
  "bullet_re = Seqs [Bol, Cls (\<lambda>c. c = CHR ''-''), Rep is_space 0 None]"

text \<open>The dictionary literal of a newly opened job.\<close>

definition new_job :: "string \<Rightarrow> string \<Rightarrow> pydict" where
  "new_job company title =
     [(''company_name'', PStr company), (''job_title'', PStr title),
      (''start_date'', PStr []), (''end_date'', PStr []), (''duration'', PStr []),
      (''responsibilities'', PList [])]"

text \<open>Lines 186 to 212: the company and position of an opening line. The current job is
  empty when this runs and stays empty when the line does not split in two.\<close>

definition split_title :: "string \<Rightarrow> pyerr + pydict" where
  "split_title line_clean =
     (if re_search at_re line_clean \<noteq> None then
        (let parts_at = re_split at_re line_clean in
         if length parts_at \<ge> 2 then
           bindE (py_index parts_at 0) (\<lambda>p0.
           bindE (py_index parts_at 1) (\<lambda>p1.
           (let title_part = strip p0; company_part = strip p1
            in Inr (new_job company_part title_part))))
         else Inr [])
      else
        (let parts = re_split sep_re line_clean in
         if length parts \<ge> 2 then
           bindE (py_index parts 0) (\<lambda>p0.
           bindE (py_index parts 1) (\<lambda>p1.
           (let company_guess = strip p0; title_guess = strip p1
            in Inr (new_job company_guess title_guess))))
         else Inr []))"

text \<open>Lines 214 to 223: the dates of an opening line.\<close>

definition set_dates :: "string \<Rightarrow> pydict \<Rightarrow> pyerr + pydict" where
  "set_dates line_clean current_job =
     (case re_search date_re line_clean of
        None \<Rightarrow> Inr current_job
      | Some date_match \<Rightarrow>
          if current_job \<noteq> [] then
            (let date_str = matched date_match;
                 dates = re_findall1 year_or_now_re date_str
             in bindE (if length dates \<ge> 1 then
                         bindE (py_index dates 0) (\<lambda>d0.
                           Inr (AList.update ''start_date''
                                  (PStr (if d0 \<notin> set [''Present'', ''Current'']
                                         then d0 @ ''-01'' else []))
                                  current_job))
                       else Inr current_job) (\<lambda>job1.
                bindE (if length dates \<ge> 2 then
                         bindE (py_index dates 1) (\<lambda>d1.
                           Inr (AList.update ''end_date''
                                  (PStr (if d1 \<notin> set [''Present'', ''Current'']
                                         then d1 @ ''-01'' else ''Present''))
                                  job1))
                       else Inr job1) (\<lambda>job2.
                Inr (AList.update ''duration'' (PStr date_str) job2))))
          else Inr current_job)"

definition open_job :: "string \<Rightarrow> pyerr + pydict" where
  "open_job line_clean = bindE (split_title line_clean) (set_dates line_clean)"

text \<open>\<open>current_job["responsibilities"].append(r)\<close>\<close>

definition append_responsibility :: "pydict \<Rightarrow> string \<Rightarrow> pyerr + pydict" where
  "append_responsibility job r =
     (case map_of job ''responsibilities'' of
        None \<Rightarrow> Inl KeyError
      | Some (PStr _) \<Rightarrow> Inl AttributeError
      | Some (PList xs) \<Rightarrow> Inr (AList.update ''responsibilities'' (PList (xs @ [r])) job))"

text \<open>Lines 227 to 231: a line read while a job is open.\<close>

definition add_responsibility :: "string \<Rightarrow> pydict \<Rightarrow> pyerr + pydict" where
  "add_responsibility line_clean current_job =
     (if startswith line_clean ''-'' \<or>
         (length line_clean > 20 \<and> re_search year_re line_clean = None) then
        (let responsibility = re_sub_empty bullet_re line_clean in
         if length responsibility > 10 then append_responsibility current_job responsibility
         else Inr current_job)
      else Inr current_job)"

definition experience_headers :: "string list" where
  "experience_headers = [''experience'', ''work experience'', ''employment'', ''work history'']"

definition experience_stops :: "string list" where
  "experience_stops = [''education'', ''skills'', ''projects'', ''certifications'']"

text \<open>The loop of lines 171 to 237 over the lines still to read, with the loop variables
  \<open>in_experience_section\<close>, \<open>current_job\<close> and \<open>experience\<close>. \<open>lines[i + 1]\<close> is the head of
  the lines after the current one. The result is the state at the end of the loop.\<close>

fun work_loop :: "string list \<Rightarrow> bool \<Rightarrow> pydict \<Rightarrow> pydict list \<Rightarrow> pyerr + (pydict \<times> pydict list)" where
  "work_loop [] in_section current_job experience = Inr (current_job, experience)"
| "work_loop (line # rest) in_section current_job experience =
     (let line_clean = strip line in
      if line_clean = [] then work_loop rest in_section current_job experience
      else if any_in experience_headers (lower line_clean)
        then work_loop rest True current_job experience
      else if in_section then
        (if any_in experience_stops (lower line_clean) then Inr (current_job, experience)
         else if current_job = [] \<and> length line_clean > 5 then
           bindE (open_job line_clean) (\<lambda>job. work_loop rest in_section job experience)
         else if current_job \<noteq> [] then
           bindE (add_responsibility line_clean current_job) (\<lambda>job.
             if (case rest of [] \<Rightarrow> False
                 | next_line # _ \<Rightarrow> any_in [''education'', ''skills''] (lower next_line))
             then work_loop rest in_section [] (experience @ [job])
             else work_loop rest in_section job experience)
         else work_loop rest in_section current_job experience)
      else work_loop rest in_section current_job experience)"

definition extract_work_experience :: "string \<Rightarrow> pyerr + pydict list" where
  "extract_work_experience text =
     bindE (work_loop (split_lines text) False [] []) (\<lambda>(current_job, experience).
       Inr (if current_job \<noteq> [] then experience @ [current_job] else experience))"

section \<open>Numbers as text\<close>

definition digit_val :: "char \<Rightarrow> nat" where
  "digit_val c = (case map_of (zip ''0123456789'' [0 ..< 10]) c of Some n \<Rightarrow> n | None \<Rightarrow> 0)"

definition digit_of :: "nat \<Rightarrow> char" where
  "digit_of n = ''0123456789'' ! (n mod 10)"

text \<open>The digits after the first one has been read: digits, with single underscores
  allowed between two digits.\<close>

fun read_digits :: "string \<Rightarrow> nat \<Rightarrow> nat option" where
  "read_digits [] acc = Some acc"
| "read_digits (c # cs) acc =
     (if is_digit c then read_digits cs (10 * acc + digit_val c)
      else if c = CHR ''_'' then
        (case cs of
           [] \<Rightarrow> None
         | d # ds \<Rightarrow> if is_digit d then read_digits ds (10 * acc + digit_val d) else None)
      else None)"

text \<open>The number of digits that \<open>int\<close> accepts in a decimal literal (the default of
  \<open>sys.set_int_max_str_digits\<close>).\<close>

definition max_str_digits :: nat where
  "max_str_digits = 4300"

text \<open>The white space that \<open>int\<close> passes over at both ends of a string: that of \<open>str.strip\<close>
  without the four separators U+001C to U+001F.\<close>

definition int_space :: "char \<Rightarrow> bool" where
  "int_space c \<longleftrightarrow> c \<in> set [CHR 0x09, CHR 0x0A, CHR 0x0B, CHR 0x0C, CHR 0x0D, CHR 0x20,
                            CHR 0x85, CHR 0xA0]"

text \<open>\<open>int(s)\<close> for a string: surrounding white space, an optional sign, and decimal digits;
  anything else raises \<open>ValueError\<close>.\<close>

definition py_int :: "string \<Rightarrow> pyerr + int" where
  "py_int s =
     (let t = rev (dropWhile int_space (rev (dropWhile int_space s)));
          negative = (case t of c # _ \<Rightarrow> c = CHR ''-'' | [] \<Rightarrow> False);
          body = (case t of c # cs \<Rightarrow> if c = CHR ''-'' \<or> c = CHR ''+'' then cs else t | [] \<Rightarrow> t)
      in case body of
           [] \<Rightarrow> Inl ValueError
         | c # cs \<Rightarrow>
             if is_digit c \<and> length (filter is_digit body) \<le> max_str_digits then
               (case read_digits cs (digit_val c) of
                  None \<Rightarrow> Inl ValueError
                | Some n \<Rightarrow> Inr (if negative then - int n else int n))
             else Inl ValueError)"

text \<open>\<open>str(n)\<close> for an integer.\<close>

fun dec_nat :: "nat \<Rightarrow> string" where
  "dec_nat n = (if n < 10 then [digit_of n] else dec_nat (n div 10) @ [digit_of n])"

definition py_str :: "int \<Rightarrow> string" where
  "py_str i = (if i < 0 then CHR ''-'' # dec_nat (nat (- i)) else dec_nat (nat i))"

text \<open>\<open>datetime.now()\<close> is an input of the model: the calendar date at the time of the call.\<close>

record datetime =
  year :: nat
  month :: nat
  day :: nat

text \<open>Two and four decimal digits, as \<open>strftime\<close> prints the day, the month and a year
  from 1000 to 9999.\<close>

definition dec2 :: "nat \<Rightarrow> string" where
  "dec2 n = [digit_of (n div 10), digit_of n]"

definition dec4 :: "nat \<Rightarrow> string" where
  "dec4 n = [digit_of (n div 1000), digit_of (n div 100), digit_of (n div 10), digit_of n]"

text \<open>\<open>now.strftime("%Y-%m")\<close> and \<open>now.strftime("%Y-%m-%d")\<close>\<close>

definition strftime_Ym :: "datetime \<Rightarrow> string" where
  "strftime_Ym now = dec4 (year now) @ ''-'' @ dec2 (month now)"

definition strftime_Ymd :: "datetime \<Rightarrow> string" where
  "strftime_Ymd now = strftime_Ym now @ ''-'' @ dec2 (day now)"

section \<open>\<open>calculate_experience_level\<close> and \<open>calculate_total_experience\<close>\<close>

text \<open>The truth value of \<open>job.get(k)\<close>: false for a missing key, an empty string and an
  empty list.\<close>

definition truthy :: "pyval option \<Rightarrow> bool" where
  "truthy v = (case v of None \<Rightarrow> False | Some (PStr s) \<Rightarrow> s \<noteq> [] | Some (PList xs) \<Rightarrow> xs \<noteq> [])"

text \<open>\<open>int(v[:4])\<close>: a list is not a number.\<close>

definition int_of_first4 :: "pyval \<Rightarrow> pyerr + int" where
  "int_of_first4 v = (case v of PStr s \<Rightarrow> py_int (take 4 s) | PList _ \<Rightarrow> Inl TypeError)"

text \<open>Lines 458 to 460, the body of the \<open>try\<close>: the years that one job adds.\<close>

definition job_years :: "datetime \<Rightarrow> pydict \<Rightarrow> pyerr + int" where
  "job_years now job =
     bindE (py_getitem job ''start_date'') (\<lambda>sd.
     bindE (if truthy (Some sd) then int_of_first4 sd else Inr 0) (\<lambda>start_year.
     bindE (py_getitem job ''end_date'') (\<lambda>ed.
     bindE (if ed \<noteq> PStr ''Present'' then int_of_first4 ed else Inr (int (year now))) (\<lambda>end_year.
     Inr (end_year - start_year)))))"

text \<open>The loop of lines 455 to 462; an exception in the body leaves the total as it is.\<close>

fun level_loop :: "datetime \<Rightarrow> pydict list \<Rightarrow> int \<Rightarrow> int" where
  "level_loop now [] total_years = total_years"
| "level_loop now (job # jobs) total_years =
     (if truthy (map_of job ''start_date'') \<and> truthy (map_of job ''end_date'') then
        (case job_years now job of
           Inl _ \<Rightarrow> level_loop now jobs total_years
         | Inr d \<Rightarrow> level_loop now jobs (total_years + d))
      else level_loop now jobs total_years)"

definition calculate_experience_level :: "datetime \<Rightarrow> pydict list \<Rightarrow> string \<Rightarrow> string" where
  "calculate_experience_level now work_experience text =
     (let total_years = level_loop now work_experience 0;
          total_years =
            (if total_years = 0 then
               (if length text > 3000 then 3 else if length text > 1500 then 1 else 0)
             else total_years)
      in if total_years \<ge> 5 then ''Experienced''
         else if total_years \<ge> 2 then ''Intermediate''
         else ''Fresher'')"

text \<open>\<open>a, b = map(int, s.split('-'))\<close>: exactly two parts, both numbers.\<close>

definition int_pair :: "pyval \<Rightarrow> pyerr + (int \<times> int)" where
  "int_pair v =
     (case v of
        PList _ \<Rightarrow> Inl AttributeError
      | PStr s \<Rightarrow>
          (case split_on (CHR ''-'') s of
             [a, b] \<Rightarrow> bindE (py_int a) (\<lambda>x. bindE (py_int b) (\<lambda>y. Inr (x, y)))
           | _ \<Rightarrow> Inl ValueError))"

text \<open>Lines 486 to 495, the body of the \<open>try\<close>: the months that one job adds.\<close>

definition job_months :: "datetime \<Rightarrow> pydict \<Rightarrow> pyerr + int" where
  "job_months now job =
     bindE (py_getitem job ''start_date'') (\<lambda>start_date.
     bindE (py_getitem job ''end_date'') (\<lambda>end_date.
     (let end_date = (if end_date = PStr ''Present'' then PStr (strftime_Ym now) else end_date)
      in bindE (int_pair start_date) (\<lambda>(start_year, start_month).
         bindE (int_pair end_date) (\<lambda>(end_year, end_month).
         Inr ((end_year - start_year) * 12 + (end_month - start_month)))))))"

text \<open>The loop of lines 483 to 497.\<close>

fun months_loop :: "datetime \<Rightarrow> pydict list \<Rightarrow> int \<Rightarrow> int" where
  "months_loop now [] total_months = total_months"
| "months_loop now (job # jobs) total_months =
     (if truthy (map_of job ''start_date'') \<and> truthy (map_of job ''end_date'') then
        (case job_months now job of
           Inl _ \<Rightarrow> months_loop now jobs total_months
         | Inr d \<Rightarrow> months_loop now jobs (total_months + d))
      else months_loop now jobs total_months)"

text \<open>Lines 499 to 507; \<open>//\<close> and \<open>%\<close> round towards minus infinity, as \<open>div\<close> and \<open>mod\<close> do.\<close>

definition format_experience :: "int \<Rightarrow> string" where
  "format_experience total_months =
     (let years = total_months div 12; months = total_months mod 12
      in if years = 0 then py_str months @ '' months''
         else if months = 0 then py_str years @ '' years''
         else py_str years @ '' years '' @ py_str months @ '' months'')"

definition calculate_total_experience :: "datetime \<Rightarrow> pydict list \<Rightarrow> string" where
  "calculate_total_experience now work_experience =
     format_experience (months_loop now work_experience 0)"

section \<open>The experience metrics in the words of the specification\<close>

text \<open>A date that parses as year and month: two integers with one hyphen between them.\<close>

definition parse_ym :: "string \<Rightarrow> (int \<times> int) option" where
  "parse_ym s =
     (case split_on (CHR ''-'') s of
        [a, b] \<Rightarrow> (case (py_int a, py_int b) of (Inr y, Inr m) \<Rightarrow> Some (y, m) | _ \<Rightarrow> None)
      | _ \<Rightarrow> None)"

text \<open>The months an entry counts for: both dates are present, not empty and parse, the end
  date \<open>Present\<close> standing for the current month; other entries count for nothing.\<close>

definition counted_months :: "datetime \<Rightarrow> pydict \<Rightarrow> int option" where
  "counted_months now job =
     (case (map_of job ''start_date'', map_of job ''end_date'') of
        (Some (PStr s), Some (PStr e)) \<Rightarrow>
          if s = [] \<or> e = [] then None
          else (case (parse_ym s,
                      if e = ''Present'' then Some (int (year now), int (month now)) else parse_ym e) of
                  (Some (sy, sm), Some (ey, em)) \<Rightarrow> Some ((ey - sy) * 12 + (em - sm))
                | _ \<Rightarrow> None)
      | _ \<Rightarrow> None)"

definition spec_total_months :: "datetime \<Rightarrow> pydict list \<Rightarrow> int" where
  "spec_total_months now jobs =
     sum_list (map (\<lambda>job. case counted_months now job of Some d \<Rightarrow> d | None \<Rightarrow> 0) jobs)"

text \<open>The text for a total of months, with \<open>Y\<close> the total divided by 12 and \<open>M\<close> the
  remainder: the years are left out when \<open>Y\<close> is 0, the months are left out when \<open>M\<close> is 0
  and \<open>Y\<close> is not.\<close>

definition spec_format :: "int \<Rightarrow> string" where
  "spec_format t =
     (if t div 12 = 0 then py_str (t mod 12) @ '' months''
      else if t mod 12 = 0 then py_str (t div 12) @ '' years''
      else py_str (t div 12) @ '' years '' @ py_str (t mod 12) @ '' months'')"

text \<open>The whole years an entry counts for: both dates are present and not empty, and the
  first four characters of each read as an integer, the end date \<open>Present\<close> standing for the
  current year.\<close>

definition counted_years :: "datetime \<Rightarrow> pydict \<Rightarrow> int option" where
  "counted_years now job =
     (case (map_of job ''start_date'', map_of job ''end_date'') of
        (Some (PStr s), Some (PStr e)) \<Rightarrow>
          if s = [] \<or> e = [] then None
          else (case (py_int (take 4 s),
                      if e = ''Present'' then Inr (int (year now)) else py_int (take 4 e)) of
                  (Inr sy, Inr ey) \<Rightarrow> Some (ey - sy)
                | _ \<Rightarrow> None)
      | _ \<Rightarrow> None)"

definition spec_total_years :: "datetime \<Rightarrow> pydict list \<Rightarrow> int" where
  "spec_total_years now jobs =
     sum_list (map (\<lambda>job. case counted_years now job of Some d \<Rightarrow> d | None \<Rightarrow> 0) jobs)"

text \<open>The years used for the tier: the sum, or the estimate from the length of the text
  when the sum is 0.\<close>

definition spec_effective_years :: "datetime \<Rightarrow> pydict list \<Rightarrow> string \<Rightarrow> int" where
  "spec_effective_years now jobs text =
     (if spec_total_years now jobs = 0
      then (if length text > 3000 then 3 else if length text > 1500 then 1 else 0)
      else spec_total_years now jobs)"

definition spec_tier :: "int \<Rightarrow> string" where
  "spec_tier y = (if y \<ge> 5 then ''Experienced''
                  else if 2 \<le> y \<and> y < 5 then ''Intermediate''
                  else ''Fresher'')"

text \<open>A work entry with the given dates, as \<open>extract_work_experience\<close> lays it out.\<close>

definition job_with_dates :: "string \<Rightarrow> string \<Rightarrow> pydict" where
  "job_with_dates s e =
     [(''company_name'', PStr ''Acme''), (''job_title'', PStr ''Engineer''),
      (''start_date'', PStr s), (''end_date'', PStr e), (''duration'', PStr []),
      (''responsibilities'', PList [])]"

text \<open>A date of the calendar, as \<open>datetime.now()\<close> returns one.\<close>

definition calendar_date :: "datetime \<Rightarrow> bool" where
  "calendar_date now \<longleftrightarrow>
     1 \<le> year now \<and> year now \<le> 9999 \<and> 1 \<le> month now \<and> month now \<le> 12 \<and>
     1 \<le> day now \<and> day now \<le> 31"

section \<open>The split of an opening line in the words of the specification\<close>


section \<open>The entries of the experience section in the words of the specification\<close>






section \<open>Positions inside a text\<close>

text \<open>The character before the cursor once \<open>pre\<close> has been read from a position whose
  preceding character is \<open>p\<close>.\<close>

definition char_before :: "char option \<Rightarrow> string \<Rightarrow> char option" where
  "char_before p pre = (if pre = [] then p else Some (last pre))"

section \<open>\<open>extract_skills\<close>\<close>

text \<open>\<open>s.title()\<close> for a string of ASCII characters, which every keyword of the lexicon
  is: a letter after a letter is put in lower case, any other letter in upper case.\<close>

fun title_from :: "bool \<Rightarrow> string \<Rightarrow> string" where
  "title_from previous_is_cased [] = []"
| "title_from previous_is_cased (c # cs) =
     (if ascii_letter c
      then (if previous_is_cased then to_lower c else to_upper c) # title_from True cs
      else c # title_from False cs)"

definition title :: "string \<Rightarrow> string" where
  "title s = title_from False s"

text \<open>The dictionary \<open>skill_categories\<close> of lines 318 to 341, in the order of its items.\<close>

definition skill_categories :: "(string \<times> string list) list" where
  "skill_categories =
     [(''programming'',
         [''python'', ''java'', ''javascript'', ''typescript'', ''c++'', ''c#'', ''php'', ''ruby'']),
      (''web'',
         [''html'', ''css'', ''react'', ''angular'', ''vue'', ''node.js'', ''express'', ''django'',
          ''flask'', ''spring'', ''laravel'']),
      (''data'',
         [''sql'', ''mysql'', ''postgresql'', ''mongodb'', ''redis'',
          ''pandas'', ''numpy'', ''data analysis'', ''machine learning'']),
      (''devops'',
         [''aws'', ''azure'', ''gcp'', ''docker'', ''kubernetes'', ''jenkins'', ''gitlab'',
          ''terraform'', ''linux'']),
      (''tools'',
         [''git'', ''github'', ''gitlab'', ''jira'', ''docker'', ''postman'']),
      (''soft_skills'',
         [''leadership'', ''communication'', ''teamwork'', ''problem solving'',
          ''critical thinking'', ''project management'', ''agile'', ''scrum''])]"

text \<open>\<open>r'\b' + re.escape(keyword) + r'\b'\<close>: the keyword, character by character, between
  two word boundaries.\<close>

definition keyword_re :: "string \<Rightarrow> regex" where
  "keyword_re keyword = Seqs [WordB, Lit keyword, WordB]"

text \<open>The test of line 347: the search finds the keyword in the lowered text.\<close>

definition keyword_found :: "string \<Rightarrow> string \<Rightarrow> bool" where
  "keyword_found text_lower keyword \<longleftrightarrow> re_search (keyword_re keyword) text_lower \<noteq> None"

text \<open>The inner loop of lines 346 to 349 over the keywords of one category.\<close>

fun keywords_loop ::
  "string \<Rightarrow> string \<Rightarrow> string list \<Rightarrow> (string \<times> string list) list \<Rightarrow>
   pyerr + (string \<times> string list) list" where
  "keywords_loop text_lower category [] skills = Inr skills"
| "keywords_loop text_lower category (keyword # keywords) skills =
     (if keyword_found text_lower keyword then
        (let normalized_name = title keyword in
         bindE (py_getitem skills category) (\<lambda>found.
           keywords_loop text_lower category keywords
             (AList.update category (found @ [normalized_name]) skills)))
      else keywords_loop text_lower category keywords skills)"

text \<open>The outer loop of line 345 over the items of \<open>skill_categories\<close>.\<close>

fun categories_loop ::
  "string \<Rightarrow> (string \<times> string list) list \<Rightarrow> (string \<times> string list) list \<Rightarrow>
   pyerr + (string \<times> string list) list" where
  "categories_loop text_lower [] skills = Inr skills"
| "categories_loop text_lower ((category, keywords) # items) skills =
     bindE (keywords_loop text_lower category keywords skills) (categories_loop text_lower items)"

text \<open>The loop of lines 352 and 353 over the keys of \<open>skills\<close>. \<open>list(set(xs))\<close> lists the
  elements of \<open>xs\<close> once each, in the order of the hash table of the running interpreter;
  that order is an input of the model, \<open>list_of_set\<close>.\<close>

fun dedup_loop ::
  "(string list \<Rightarrow> string list) \<Rightarrow> string list \<Rightarrow> (string \<times> string list) list \<Rightarrow>
   pyerr + (string \<times> string list) list" where
  "dedup_loop list_of_set [] skills = Inr skills"
| "dedup_loop list_of_set (category # categories) skills =
     bindE (py_getitem skills category) (\<lambda>found.
       dedup_loop list_of_set categories (AList.update category (list_of_set found) skills))"

definition extract_skills ::
  "(string list \<Rightarrow> string list) \<Rightarrow> string \<Rightarrow> pyerr + (string \<times> string list) list" where
  "extract_skills list_of_set text =
     (let skills = [(''programming'', []), (''web'', []), (''data'', []), (''devops'', []),
                    (''tools'', []), (''soft_skills'', [])];
          text_lower = lower text
      in bindE (categories_loop text_lower skill_categories skills) (\<lambda>skills.
           dedup_loop list_of_set (map fst skills) skills))"

text \<open>What every order of a hash table has in common: each element is listed once.\<close>

definition lists_each_once :: "(string list \<Rightarrow> string list) \<Rightarrow> bool" where
  "lists_each_once list_of_set \<longleftrightarrow>
     (\<forall>xs. set (list_of_set xs) = set xs \<and> distinct (list_of_set xs))"

section \<open>The word search in the words of the specification\<close>

text \<open>The keyword \<open>k\<close>, in any case, stands as a whole word between \<open>pre\<close> and \<open>post\<close>: \<open>w\<close>
  is \<open>k\<close> up to case, and no word character touches it on either side.\<close>

definition whole_word :: "string \<Rightarrow> string \<Rightarrow> string \<Rightarrow> string \<Rightarrow> bool" where
  "whole_word k pre w post \<longleftrightarrow>
     lower w = k \<and> (pre = [] \<or> \<not> is_word (last pre)) \<and> (post = [] \<or> \<not> is_word (hd post))"


text \<open>Somewhere in the text the keyword \<open>k\<close>, in any case, is directly followed by a word
  character.\<close>

fun word_char_follows :: "string \<Rightarrow> string \<Rightarrow> bool" where
  "word_char_follows k [] \<longleftrightarrow> False"
| "word_char_follows k (c # cs) \<longleftrightarrow>
     (prefix k (lower (c # cs)) \<and>
      (case drop (length k) (c # cs) of [] \<Rightarrow> False | d # _ \<Rightarrow> is_word d)) \<or>
     word_char_follows k cs"

section \<open>\<open>extract_personal_info\<close>\<close>

text \<open>\<open>xs[-1]\<close>\<close>

definition py_last :: "'a list \<Rightarrow> pyerr + 'a" where
  "py_last xs = (if xs = [] then Inl IndexError else Inr (last xs))"

definition name_stop_words :: "string list" where
  "name_stop_words = [''resume'', ''cv'', ''curriculum'', ''vitae'', ''phone'', ''email'', ''linkedin'']"

text \<open>\<open>[A-Za-z\s\.\-]\<close>\<close>

definition name_char :: "char \<Rightarrow> bool" where
  "name_char c \<longleftrightarrow> ascii_letter c \<or> is_space c \<or> c = CHR ''.'' \<or> c = CHR ''-''"

text \<open>\<open>r'^[A-Za-z\s\.\-]+$'\<close>\<close>

definition name_re :: regex where
  "name_re = Seqs [Bol, Rep name_char 1 None, Eol]"

text \<open>\<open>r'\b[A-Za-z0-9._%+-]+@[A-Za-z0-9.-]+\.[A-Z|a-z]{2,}\b'\<close>\<close>

definition email_re :: regex where
  "email_re = Seqs [WordB,
     Rep (\<lambda>c. ascii_letter c \<or> is_digit c \<or> c \<in> set ''._%+-'') 1 None,
     Chr (CHR ''@''),
     Rep (\<lambda>c. ascii_letter c \<or> is_digit c \<or> c \<in> set ''.-'') 1 None,
     Chr (CHR ''.''),
     Rep (\<lambda>c. ascii_letter c \<or> c = CHR ''|'') 2 None,
     WordB]"

text \<open>\<open>[-.\s]\<close>\<close>

definition phone_sep :: "char \<Rightarrow> bool" where
  "phone_sep c \<longleftrightarrow> c \<in> set ''-.'' \<or> is_space c"

text \<open>\<open>r'(\+?\d{1,3}[-.\s]?)?\(?\d{3}\)?[-.\s]?\d{3}[-.\s]?\d{4}'\<close> and
  \<open>r'\b\d{3}[-.\s]?\d{3}[-.\s]?\d{4}\b'\<close>\<close>

definition phone_patterns :: "regex list" where
  "phone_patterns =
     [Seqs [Opt (Grp 1 (Seqs [Opt (Chr (CHR ''+'')), Rep is_digit 1 (Some 3), Opt (Cls phone_sep)])),
            Opt (Chr (CHR ''('')), Rep is_digit 3 (Some 3), Opt (Chr (CHR '')'')),
            Opt (Cls phone_sep), Rep is_digit 3 (Some 3), Opt (Cls phone_sep),
            Rep is_digit 4 (Some 4)],
      Seqs [WordB, Rep is_digit 3 (Some 3), Opt (Cls phone_sep), Rep is_digit 3 (Some 3),
            Opt (Cls phone_sep), Rep is_digit 4 (Some 4), WordB]]"

text \<open>\<open>r'linkedin\.com/in/[^\s]+'\<close> and \<open>r'github\.com/[^\s]+'\<close>\<close>

definition linkedin_re :: regex where
  "linkedin_re = Seqs [Lit ''linkedin.com/in/'', Rep (\<lambda>c. \<not> is_space c) 1 None]"

definition github_re :: regex where
  "github_re = Seqs [Lit ''github.com/'', Rep (\<lambda>c. \<not> is_space c) 1 None]"

text \<open>The class of line 118: word characters and the punctuation of a URL, the last two
  being the single and the double quote.\<close>

definition url_char :: "char \<Rightarrow> bool" where
  "url_char c \<longleftrightarrow> is_word c \<or> c \<in> set (''-.~:/?#@!$&()*+,;=%'' @ [CHR 0x27, CHR 0x22])"

text \<open>The pattern of line 118: \<open>http://\<close>, \<open>https://\<close> or \<open>www.\<close> in group 2, followed by
  characters of the class above, all in group 1.\<close>

definition portfolio_re :: regex where
  "portfolio_re =
     Grp 1 (Seqs [Grp 2 (Alt (Seqs [Lit ''http'', Opt (Chr (CHR ''s'')), Lit ''://'']) (Lit ''www.'')),
                  Rep url_char 1 None])"

definition address_tokens :: "string list" where
  "address_tokens = [''address'', ''location'', ''city'', ''province'', ''district'', ''street'', ''road'']"

text \<open>A dictionary whose values are strings.\<close>

type_synonym strdict = "(string \<times> string) list"

text \<open>The loop of lines 79 to 89 over the first ten lines.\<close>

fun name_loop :: "string list \<Rightarrow> strdict \<Rightarrow> pyerr + strdict" where
  "name_loop [] info = Inr info"
| "name_loop (line # rest) info =
     (let line_clean = strip line in
      if length line_clean > 2 \<and> length line_clean < 50 \<and>
         \<not> any_in name_stop_words (lower line_clean) \<and>
         re_match name_re line_clean \<noteq> None
      then
        (let info = AList.update ''full_name'' line_clean info;
             name_parts = split_ws line_clean
         in if name_parts \<noteq> [] then
              bindE (py_index name_parts 0) (\<lambda>first.
              bindE (if length name_parts > 1 then py_last name_parts else Inr []) (\<lambda>last_part.
              Inr (AList.update ''last_name'' last_part (AList.update ''first_name'' first info))))
            else Inr info)
      else name_loop rest info)"

text \<open>The loop of lines 101 to 105 over the phone patterns.\<close>

fun phone_loop :: "regex list \<Rightarrow> string \<Rightarrow> strdict \<Rightarrow> strdict" where
  "phone_loop [] text info = info"
| "phone_loop (pattern # patterns) text info =
     (case re_search pattern text of
        Some phone_match \<Rightarrow> AList.update ''phone'' (matched phone_match) info
      | None \<Rightarrow> phone_loop patterns text info)"

text \<open>Lines 118 to 122. \<open>group(1)\<close> of a match without group 1 is \<open>None\<close>, which has no
  \<open>strip\<close>.\<close>

definition set_portfolio :: "string \<Rightarrow> strdict \<Rightarrow> pyerr + strdict" where
  "set_portfolio text info =
     (case re_search portfolio_re text of
        None \<Rightarrow> Inr info
      | Some portfolio_match \<Rightarrow>
          (case group portfolio_match 1 of
             None \<Rightarrow> Inl AttributeError
           | Some g \<Rightarrow>
               (let candidate = strip g in
                if \<not> contains ''@'' candidate \<and> \<not> contains ''linkedin'' candidate \<and>
                   \<not> contains ''github'' candidate
                then Inr (AList.update ''portfolio'' candidate info)
                else Inr info)))"

text \<open>The loop of lines 126 to 131 over the first twelve lines.\<close>

fun address_loop :: "string list \<Rightarrow> strdict \<Rightarrow> strdict" where
  "address_loop [] info = info"
| "address_loop (line # rest) info =
     (let low = lower (strip line) in
      if any_in address_tokens low \<and> length (strip line) > 5
      then AList.update ''address'' (strip line) (AList.update ''location'' (strip line) info)
      else address_loop rest info)"

text \<open>The loop of lines 134 to 138 over the first eight lines.\<close>

fun comma_loop :: "string list \<Rightarrow> strdict \<Rightarrow> strdict" where
  "comma_loop [] info = info"
| "comma_loop (line # rest) info =
     (if contains '','' line \<and> length (strip line) > 8 \<and> re_search (Chr (CHR ''@'')) line = None
      then AList.update ''address'' (strip line) (AList.update ''location'' (strip line) info)
      else comma_loop rest info)"

definition empty_info :: strdict where
  "empty_info =
     [(''full_name'', []), (''location'', []), (''first_name'', []), (''last_name'', []),
      (''email'', []), (''phone'', []), (''address'', []), (''linkedin'', []), (''github'', []),
      (''portfolio'', [])]"

text \<open>A match, if there is one, stored under a key.\<close>

definition set_match :: "string \<Rightarrow> rematch option \<Rightarrow> strdict \<Rightarrow> strdict" where
  "set_match key m info = (case m of None \<Rightarrow> info | Some found \<Rightarrow> AList.update key (matched found) info)"

definition extract_personal_info :: "string \<Rightarrow> pyerr + strdict" where
  "extract_personal_info text =
     (let lines = split_lines text in
      bindE (name_loop (take 10 lines) empty_info) (\<lambda>info.
      (let info = set_match ''email'' (re_search email_re text) info;
           info = phone_loop phone_patterns text info;
           info = set_match ''linkedin'' (re_search linkedin_re text) info;
           info = set_match ''github'' (re_search github_re text) info
       in bindE (set_portfolio text info) (\<lambda>info.
          (let info = address_loop (take 12 lines) info
           in bindE (py_getitem info ''location'') (\<lambda>location.
              Inr (if location = [] then comma_loop (take 8 lines) info else info)))))))"

section \<open>\<open>extract_summary\<close>\<close>

definition summary_headers :: "string list" where
  "summary_headers = [''summary'', ''objective'', ''profile'', ''about'']"

definition summary_stops :: "string list" where
  "summary_stops = [''experience'', ''education'', ''skills'', ''projects'']"

text \<open>The loop of lines 148 to 160; the result is \<open>summary\<close> at the end of the loop.\<close>

fun summary_loop :: "string list \<Rightarrow> bool \<Rightarrow> string \<Rightarrow> string" where
  "summary_loop [] in_summary summary = summary"
| "summary_loop (line # rest) in_summary summary =
     (let line_clean = strip line in
      if any_in summary_headers (lower line_clean) then summary_loop rest True summary
      else if in_summary then
        (if line_clean \<noteq> [] \<and> length line_clean > 10 then
           (if any_in summary_stops (lower line_clean) then summary
            else summary_loop rest in_summary (summary @ line_clean @ '' ''))
         else (if summary \<noteq> [] then summary else summary_loop rest in_summary summary))
      else summary_loop rest in_summary summary)"

definition extract_summary :: "string \<Rightarrow> string" where
  "extract_summary text = strip (summary_loop (split_lines text) False [])"

section \<open>\<open>extract_education\<close>\<close>

text \<open>\<open>r'GPA\s*:?\s*(\d\.\d{1,2})'\<close> with \<open>re.IGNORECASE\<close>\<close>

definition gpa_re :: regex where
  "gpa_re = Seqs [LitI ''GPA'', Rep is_space 0 None, Opt (Chr (CHR '':'')), Rep is_space 0 None,
                  Grp 1 (Seqs [Cls is_digit, Chr (CHR ''.''), Rep is_digit 1 (Some 2)])]"

definition education_headers :: "string list" where
  "education_headers = [''education'', ''academic'', ''qualifications'']"

definition education_stops :: "string list" where
  "education_stops = [''experience'', ''skills'', ''projects'', ''certifications'']"

definition degree_words :: "string list" where
  "degree_words = [''bachelor'', ''master'', ''phd'', ''associate'', ''diploma'', ''degree'']"

text \<open>\<open>'university' in s.lower() or 'college' in s.lower()\<close>\<close>

definition names_school :: "string \<Rightarrow> bool" where
  "names_school s \<longleftrightarrow> contains ''university'' (lower s) \<or> contains ''college'' (lower s)"

text \<open>Lines 267 to 290: the entry opened by a line with a degree word. Group 1 of
  \<open>gpa_re\<close> takes part in every match; a match without it would store \<open>None\<close>, for which the
  model has no value and leaves the entry as it is.\<close>

definition open_education :: "string \<Rightarrow> strdict" where
  "open_education line_clean =
     (let current_edu = [(''degree'', []), (''major'', []), (''school_name'', []),
                         (''start_date'', []), (''end_date'', []), (''gpa'', [])];
          current_edu = (if names_school line_clean
                         then AList.update ''school_name'' line_clean current_edu
                         else AList.update ''degree'' line_clean current_edu);
          current_edu = (case re_search year_re line_clean of
                           None \<Rightarrow> current_edu
                         | Some year_match \<Rightarrow>
                             AList.update ''end_date'' (matched year_match @ ''-01'') current_edu)
      in case re_search gpa_re line_clean of
           None \<Rightarrow> current_edu
         | Some gpa_match \<Rightarrow>
             (case group gpa_match 1 of
                None \<Rightarrow> current_edu
              | Some g \<Rightarrow> AList.update ''gpa'' g current_edu))"

text \<open>Lines 293 and 294: a line read while an entry is open.\<close>

definition fill_school :: "string \<Rightarrow> strdict \<Rightarrow> pyerr + strdict" where
  "fill_school line_clean current_edu =
     bindE (py_getitem current_edu ''school_name'') (\<lambda>school.
       Inr (if school = [] \<and> names_school line_clean
            then AList.update ''school_name'' line_clean current_edu
            else current_edu))"

text \<open>The loop of lines 252 to 300.\<close>

fun education_loop ::
  "string list \<Rightarrow> bool \<Rightarrow> strdict \<Rightarrow> strdict list \<Rightarrow> pyerr + (strdict \<times> strdict list)" where
  "education_loop [] in_section current_edu education = Inr (current_edu, education)"
| "education_loop (line # rest) in_section current_edu education =
     (let line_clean = strip line in
      if line_clean = [] then education_loop rest in_section current_edu education
      else if any_in education_headers (lower line_clean)
        then education_loop rest True current_edu education
      else if in_section then
        (if any_in education_stops (lower line_clean) then Inr (current_edu, education)
         else if current_edu = [] \<and> length line_clean > 5 then
           (if any_in degree_words (lower line_clean)
            then education_loop rest in_section (open_education line_clean) education
            else education_loop rest in_section current_edu education)
         else if current_edu \<noteq> [] then
           bindE (fill_school line_clean current_edu) (\<lambda>edu.
             if (case rest of [] \<Rightarrow> False
                 | next_line # _ \<Rightarrow>
                     any_in [''experience'', ''skills'', ''projects''] (lower next_line))
             then education_loop rest in_section [] (education @ [edu])
             else education_loop rest in_section edu education)
         else education_loop rest in_section current_edu education)
      else education_loop rest in_section current_edu education)"

definition extract_education :: "string \<Rightarrow> pyerr + strdict list" where
  "extract_education text =
     bindE (education_loop (split_lines text) False [] []) (\<lambda>(current_edu, education).
       Inr (if current_edu \<noteq> [] then education @ [current_edu] else education))"

section \<open>\<open>extract_projects\<close>\<close>

definition project_headers :: "string list" where
  "project_headers = [''projects'', ''personal projects'', ''portfolio'']"

definition project_stops :: "string list" where
  "project_stops = [''experience'', ''education'', ''skills'', ''certifications'']"

definition tech_keywords :: "string list" where
  "tech_keywords = [''python'', ''java'', ''react'', ''node'', ''sql'', ''mongodb'', ''aws'']"

text \<open>Lines 391 to 398: a line read while a project is open.\<close>

definition describe_project :: "string \<Rightarrow> pydict \<Rightarrow> pyerr + pydict" where
  "describe_project line_clean current_project =
     (if length line_clean > 20 then
        bindE (py_getitem current_project ''description'') (\<lambda>description.
          if \<not> truthy (Some description)
          then Inr (AList.update ''description'' (PStr line_clean) current_project)
          else
            (let found_tech = filter (\<lambda>tech. contains tech (lower line_clean)) tech_keywords
             in bindE (py_getitem current_project ''technologies'') (\<lambda>technologies.
                  case technologies of
                    PStr _ \<Rightarrow> Inl AttributeError
                  | PList ts \<Rightarrow>
                      Inr (AList.update ''technologies'' (PList (ts @ found_tech)) current_project))))
      else Inr current_project)"

text \<open>The loop of lines 365 to 405.\<close>

fun projects_loop ::
  "string list \<Rightarrow> bool \<Rightarrow> pydict \<Rightarrow> pydict list \<Rightarrow> pyerr + (pydict \<times> pydict list)" where
  "projects_loop [] in_section current_project projects = Inr (current_project, projects)"
| "projects_loop (line # rest) in_section current_project projects =
     (let line_clean = strip line in
      if line_clean = [] then projects_loop rest in_section current_project projects
      else if any_in project_headers (lower line_clean)
        then projects_loop rest True current_project projects
      else if in_section then
        (if any_in project_stops (lower line_clean) then Inr (current_project, projects)
         else if current_project = [] \<and> length line_clean > 5 \<and> length line_clean < 100 then
           projects_loop rest in_section
             [(''title'', PStr line_clean), (''description'', PStr []), (''technologies'', PList []),
              (''role'', PStr []), (''duration'', PStr [])]
             projects
         else if current_project \<noteq> [] then
           bindE (describe_project line_clean current_project) (\<lambda>project.
             if (case rest of [] \<Rightarrow> False
                 | next_line # _ \<Rightarrow>
                     length (strip next_line) = 0 \<or>
                     any_in [''experience'', ''education''] (lower next_line))
             then projects_loop rest in_section [] (projects @ [project])
             else projects_loop rest in_section project projects)
         else projects_loop rest in_section current_project projects)
      else projects_loop rest in_section current_project projects)"

definition extract_projects :: "string \<Rightarrow> pyerr + pydict list" where
  "extract_projects text =
     bindE (projects_loop (split_lines text) False [] []) (\<lambda>(current_project, projects).
       Inr (if current_project \<noteq> [] then projects @ [current_project] else projects))"

section \<open>\<open>extract_additional_info\<close>\<close>

text \<open>\<open>info[section].append(line)\<close>\<close>

definition append_item :: "(string \<times> string list) list \<Rightarrow> string \<Rightarrow> string \<Rightarrow>
    pyerr + (string \<times> string list) list" where
  "append_item info section_name item =
     bindE (py_getitem info section_name) (\<lambda>items.
       Inr (AList.update section_name (items @ [item]) info))"

text \<open>The loop of lines 423 to 447, with the loop variable \<open>current_section\<close>.\<close>

fun additional_loop ::
  "string list \<Rightarrow> string \<Rightarrow> (string \<times> string list) list \<Rightarrow> pyerr + (string \<times> string list) list" where
  "additional_loop [] current_section info = Inr info"
| "additional_loop (line # rest) current_section info =
     (let line_clean = strip line in
      if line_clean = [] then additional_loop rest current_section info
      else
        (let low = lower line_clean in
         if startswith low ''certificat'' \<or> startswith low ''certification''
           then additional_loop rest ''certifications'' info
         else if startswith low ''language'' \<or> low = ''languages'' \<or> startswith low ''languages:''
           then additional_loop rest ''languages'' info
         else if startswith low ''award'' \<or> startswith low ''awards'' \<or> contains ''honor'' low
           then additional_loop rest ''awards'' info
         else if current_section \<noteq> [] \<and> length line_clean > 2 then
           (if current_section = ''certifications'' then
              bindE (append_item info ''certifications'' line_clean) (additional_loop rest current_section)
            else if current_section = ''languages'' then
              bindE (append_item info ''languages'' line_clean) (additional_loop rest current_section)
            else if current_section = ''awards'' then
              bindE (append_item info ''awards'' line_clean) (additional_loop rest current_section)
            else additional_loop rest current_section info)
         else additional_loop rest current_section info))"

definition extract_additional_info :: "string \<Rightarrow> pyerr + (string \<times> string list) list" where
  "extract_additional_info text =
     additional_loop (split_lines text) []
       [(''certifications'', []), (''languages'', []), (''awards'', [])]"

section \<open>The profile assembled by \<open>analyze_resume\<close>\<close>

text \<open>The dictionary \<open>structured_data\<close> of lines 555 to 568, one field for each key.\<close>

record profile =
  sd_personal_info :: strdict
  sd_summary :: string
  sd_work_experience :: "pydict list"
  sd_education :: "strdict list"
  sd_skills :: "(string \<times> string list) list"
  sd_projects :: "pydict list"
  sd_certifications :: "string list"
  sd_languages :: "string list"
  sd_awards :: "string list"
  sd_total_experience :: string
  sd_experience_level :: string
  sd_additional_info :: string

text \<open>Lines 542 to 568 of \<open>analyze_resume\<close>: the extractors, the two metrics and the
  dictionary built from them. The text, the calendar date of the calls to \<open>datetime.now()\<close>
  and the order of the hash table are the inputs.\<close>

definition structured_data ::
  "(string list \<Rightarrow> string list) \<Rightarrow> datetime \<Rightarrow> string \<Rightarrow> pyerr + profile" where
  "structured_data list_of_set now resume_text =
     bindE (extract_personal_info resume_text) (\<lambda>personal_info.
     (let summary = extract_summary resume_text in
      bindE (extract_work_experience resume_text) (\<lambda>work_experience.
      bindE (extract_education resume_text) (\<lambda>education.
      bindE (extract_skills list_of_set resume_text) (\<lambda>skills.
      bindE (extract_projects resume_text) (\<lambda>projects.
      bindE (extract_additional_info resume_text) (\<lambda>additional_info.
      (let experience_level = calculate_experience_level now work_experience resume_text;
           total_experience = calculate_total_experience now work_experience
       in bindE (py_getitem additional_info ''certifications'') (\<lambda>certifications.
          bindE (py_getitem additional_info ''languages'') (\<lambda>languages.
          bindE (py_getitem additional_info ''awards'') (\<lambda>awards.
          Inr \<lparr>sd_personal_info = personal_info,
               sd_summary = summary,
               sd_work_experience = work_experience,
               sd_education = education,
               sd_skills = skills,
               sd_projects = projects,
               sd_certifications = certifications,
               sd_languages = languages,
               sd_awards = awards,
               sd_total_experience = total_experience,
               sd_experience_level = experience_level,
               sd_additional_info =
                 ''Analyzed on '' @ strftime_Ymd now @ ''. Text length: '' @
                 py_str (int (length resume_text)) @ '' characters.''\<rparr>)))))))))))"

section \<open>The name line in the words of the specification\<close>

text \<open>A trimmed line that is taken as the name: more than 2 and fewer than 50 characters,
  none of the excluded words in it in any case, and only letters, white space, periods and
  hyphens.\<close>

definition name_like :: "string \<Rightarrow> bool" where
  "name_like l \<longleftrightarrow>
     2 < length l \<and> length l < 50 \<and> \<not> any_in name_stop_words (lower l) \<and> list_all name_char l"

text \<open>The name found in the first ten lines: the first trimmed line that is like a name.\<close>

definition spec_name_line :: "string \<Rightarrow> string option" where
  "spec_name_line text = find name_like (map strip (take 10 (split_lines text)))"

section \<open>Relations between dictionaries used in the proofs\<close>

text \<open>\<open>b\<close> has the keys of \<open>a\<close>, in the same order, and the same three name fields.\<close>

definition keeps_names :: "strdict \<Rightarrow> strdict \<Rightarrow> bool" where
  "keeps_names a b \<longleftrightarrow>
     map fst b = map fst a \<and>
     map_of b ''full_name'' = map_of a ''full_name'' \<and>
     map_of b ''first_name'' = map_of a ''first_name'' \<and>
     map_of b ''last_name'' = map_of a ''last_name''"

text \<open>The three name fields set from an accepted line: the line, its first word, and its
  last word when it has more than one.\<close>

definition named :: "string \<Rightarrow> strdict \<Rightarrow> strdict" where
  "named l info =
     AList.update ''last_name'' (if length (split_ws l) > 1 then last (split_ws l) else [])
       (AList.update ''first_name'' (hd (split_ws l)) (AList.update ''full_name'' l info))"



section \<open>The shape of the extracted entries\<close>

definition job_keys :: "string list" where
  "job_keys = [''company_name'', ''job_title'', ''start_date'', ''end_date'', ''duration'',
               ''responsibilities'']"

definition education_keys :: "string list" where
  "education_keys = [''degree'', ''major'', ''school_name'', ''start_date'', ''end_date'', ''gpa'']"

definition project_keys :: "string list" where
  "project_keys = [''title'', ''description'', ''technologies'', ''role'', ''duration'']"

definition personal_info_keys :: "string list" where
  "personal_info_keys = [''full_name'', ''location'', ''first_name'', ''last_name'', ''email'',
                         ''phone'', ''address'', ''linkedin'', ''github'', ''portfolio'']"

definition skill_keys :: "string list" where
  "skill_keys = [''programming'', ''web'', ''data'', ''devops'', ''tools'', ''soft_skills'']"

definition additional_keys :: "string list" where
  "additional_keys = [''certifications'', ''languages'', ''awards'']"

text \<open>The value under a key is a list.\<close>

definition holds_list :: "pydict \<Rightarrow> string \<Rightarrow> bool" where
  "holds_list d k = (case map_of d k of Some (PList _) \<Rightarrow> True | _ \<Rightarrow> False)"

text \<open>The value under a key is a string.\<close>

definition holds_str :: "pydict \<Rightarrow> string \<Rightarrow> bool" where
  "holds_str d k = (case map_of d k of Some (PStr _) \<Rightarrow> True | _ \<Rightarrow> False)"

text \<open>A work entry as the extractor builds it: the six keys, a list of responsibilities,
  strings elsewhere, and an end date that is not \<open>Present\<close>.\<close>

definition job_ok :: "pydict \<Rightarrow> bool" where
  "job_ok job \<longleftrightarrow>
     map fst job = job_keys \<and> holds_list job ''responsibilities'' \<and>
     map_of job ''end_date'' \<noteq> Some (PStr ''Present'')"

text \<open>A project entry as the extractor builds it: the five keys, a string as description
  and a list of technologies.\<close>

definition project_ok :: "pydict \<Rightarrow> bool" where
  "project_ok p \<longleftrightarrow>
     map fst p = project_keys \<and> holds_str p ''description'' \<and> holds_list p ''technologies''"

section \<open>A text for the instances\<close>

text \<open>A short resume: a name, the header of the experience section, an opening line, a
  responsibility, a line that names both \<open>experience\<close> and \<open>skills\<close>, and a second opening
  line.\<close>

definition sample_resume :: string where
  "sample_resume =
     ''Jane Doe'' @ [CHR 0x0A] @ ''Work History'' @ [CHR 0x0A] @
     ''Senior Developer AT Globex, Inc.'' @ [CHR 0x0A] @
     ''- Led the migration of data pipelines'' @ [CHR 0x0A] @
     ''More experience and skills'' @ [CHR 0x0A] @ ''Intern at Initech | 2019 - 2020''"

chapter \<open>Properties\<close>

section \<open>Work experience\<close>

text \<open>
  Claim C1. On an opening line of the experience section on which the date range pattern
  matches, the first four-digit year is to be stored as start date in the form YYYY-01, the
  second as end date, and the matched text as duration; the line
  \<open>Software Engineer at Acme Corp 2019 - 2021\<close> is to give the start date \<open>2019-01\<close> and the
  end date \<open>2021-01\<close>. The code does not do this: \<open>re.findall\<close> is given a pattern with one
  group, \<open>(19|20)\<close>, and so returns the text of that group, the century, instead of the
  year. On the line of the claim the code stores \<open>20-01\<close> as start date and as end date;
  only the duration is as claimed.
\<close>

theorem C1_dates_hold_century_only:
  "extract_work_experience
     (''Experience'' @ [CHR 0x0A] @ ''Software Engineer at Acme Corp 2019 - 2021'') =
   Inr [[(''company_name'', PStr ''Acme Corp 2019 - 2021''),
         (''job_title'', PStr ''Software Engineer''),
         (''start_date'', PStr ''20-01''),
         (''end_date'', PStr ''20-01''),
         (''duration'', PStr ''2019 - 2021''),
         (''responsibilities'', PList [])]]"
  by code_simp

subsection \<open>The first match of a search\<close>





lemma search_from_None:
  "search_from r p s = None \<Longrightarrow> s = pre @ rest \<Longrightarrow> rmatch r ((char_before p pre, rest), []) = []"
proof (induction s arbitrary: p pre)
  case Nil
  then show ?case by (auto simp: char_before_def split: list.splits prod.splits)
next
  case (Cons c cs)
  from Cons.prems(1) have no: "rmatch r ((p, c # cs), []) = []"
    and nx: "search_from r (Some c) cs = None"
    by (simp_all split: list.splits add: case_prod_beta)
  show ?case
  proof (cases pre)
    case Nil
    with Cons.prems(2) no show ?thesis by (simp add: char_before_def)
  next
    case (Cons d pre')
    with Cons.prems(2) have "cs = pre' @ rest" "d = c" by simp_all
    from Cons.IH[OF nx this(1)] show ?thesis
      by (auto simp: char_before_def Cons \<open>d = c\<close> split: if_splits)
  qed
qed

lemma search_from_Some:
  "search_from r p s = Some m \<Longrightarrow>
   \<exists>rest x xs. s = skipped m @ rest \<and> rmatch r ((char_before p (skipped m), rest), []) = x # xs \<and>
      m_end m = fst x \<and> groups m = snd x \<and>
      matched m = take (length rest - length (snd (fst x))) rest"
proof (induction s arbitrary: p m)
  case Nil
  then show ?case by (auto simp: char_before_def split: list.splits prod.splits)
next
  case (Cons c cs)
  show ?case
  proof (cases "rmatch r ((p, c # cs), [])")
    case Nil
    with Cons.prems obtain m' where m': "search_from r (Some c) cs = Some m'"
      and m: "m = m'\<lparr>skipped := c # skipped m'\<rparr>"
      by auto
    from Cons.IH[OF m'] show ?thesis
      by (auto simp: m char_before_def)
  next
    case hit: (Cons x xs)
    with Cons.prems have "m = \<lparr>skipped = [], matched = take (length (c # cs) - length (snd (fst x))) (c # cs),
        groups = snd x, m_end = fst x\<rparr>"
      by (simp add: case_prod_beta)
    with hit show ?thesis by (cases x) (auto simp: char_before_def)
  qed
qed


















lemma char_before_after_word:
  "char_before None (xs @ [a, t] @ ys) = char_before (Some t) ys"
  by (simp add: char_before_def)

section \<open>Experience metrics\<close>

subsection \<open>Reading back the digits of a date\<close>

lemma digit_cases: "n < 10 \<Longrightarrow> n \<in> {0,1,2,3,4,5,6,7,8,9::nat}"
  by auto

lemma digit_of_props:
  "is_digit (digit_of n)" "digit_val (digit_of n) = n mod 10" "\<not> int_space (digit_of n)"
  "digit_of n \<noteq> CHR ''-''" "digit_of n \<noteq> CHR ''+''" "digit_of n \<noteq> CHR ''_''"
proof -
  have "n mod 10 < 10" by simp
  then have c: "n mod 10 \<in> {0,1,2,3,4,5,6,7,8,9::nat}" by (rule digit_cases)
  show "is_digit (digit_of n)" using c unfolding digit_of_def is_digit_def by auto
  show "digit_val (digit_of n) = n mod 10" using c unfolding digit_of_def digit_val_def by (auto simp: upt_rec)
  show "\<not> int_space (digit_of n)" using c unfolding digit_of_def int_space_def by auto
  show "digit_of n \<noteq> CHR ''-''" using c unfolding digit_of_def by auto
  show "digit_of n \<noteq> CHR ''+''" using c unfolding digit_of_def by auto
  show "digit_of n \<noteq> CHR ''_''" using c unfolding digit_of_def by auto
qed


lemma four_digits:
  fixes y :: nat
  assumes "y < 10000"
  shows "10 * (10 * (10 * (y div 1000 mod 10) + y div 100 mod 10) + y div 10 mod 10) + y mod 10 = y"
proof -
  define q1 where "q1 = y div 10"
  define q2 where "q2 = q1 div 10"
  define q3 where "q3 = q2 div 10"
  have a: "y div 100 = q2" by (simp add: q1_def q2_def div_mult2_eq)
  have b: "y div 1000 = q3" by (simp add: q1_def q2_def q3_def div_mult2_eq)
  have "q3 < 10" using assms unfolding b[symmetric] by (simp add: div_less_iff_less_mult)
  then have c: "q3 mod 10 = q3" by simp
  have e1: "y = 10 * q1 + y mod 10" by (simp add: q1_def)
  have e2: "q1 = 10 * q2 + q1 mod 10" by (simp add: q2_def)
  have e3: "q2 = 10 * q3 + q2 mod 10" by (simp add: q3_def)
  show ?thesis
    unfolding a b c q1_def[symmetric]
    by (simp only: e3[symmetric] e2[symmetric] e1[symmetric])
qed

lemma two_digits:
  fixes m :: nat
  assumes "m < 100"
  shows "10 * (m div 10 mod 10) + m mod 10 = m"
proof -
  have "m div 10 < 10" using assms by (simp add: div_less_iff_less_mult)
  then show ?thesis by simp
qed

lemma strip_digits:
  "rev (dropWhile int_space (rev (dropWhile int_space (digit_of a # xs @ [digit_of b])))) =
     digit_of a # xs @ [digit_of b]"
  by (simp add: digit_of_props)

lemma py_int_dec4: 
  assumes "y < 10000" shows "py_int (dec4 y) = Inr (int y)"
proof -
  have s: "rev (dropWhile int_space (rev (dropWhile int_space (dec4 y)))) = dec4 y"
    using strip_digits[of "y div 1000" "[digit_of (y div 100), digit_of (y div 10)]" y]
    by (simp add: dec4_def)
  have "read_digits [digit_of (y div 100), digit_of (y div 10), digit_of y] (y div 1000 mod 10) =
        Some (10 * (10 * (10 * (y div 1000 mod 10) + y div 100 mod 10) + y div 10 mod 10) + y mod 10)"
    by (simp add: digit_of_props)
  then have r: "read_digits [digit_of (y div 100), digit_of (y div 10), digit_of y] (y div 1000 mod 10) = Some y"
    by (simp only: four_digits[OF assms])
  show ?thesis
    unfolding py_int_def s
    by (simp add: dec4_def digit_of_props max_str_digits_def Let_def r del: read_digits.simps)
qed

lemma py_int_dec2: 
  assumes "m < 100" shows "py_int (dec2 m) = Inr (int m)"
proof -
  have s: "rev (dropWhile int_space (rev (dropWhile int_space (dec2 m)))) = dec2 m"
    using strip_digits[of "m div 10" "[]" m]
    by (simp add: dec2_def)
  have "read_digits [digit_of m] (m div 10 mod 10) = Some (10 * (m div 10 mod 10) + m mod 10)"
    by (simp add: digit_of_props)
  then have r: "read_digits [digit_of m] (m div 10 mod 10) = Some m"
    by (simp only: two_digits[OF assms])
  show ?thesis
    unfolding py_int_def s
    by (simp add: dec2_def digit_of_props max_str_digits_def Let_def r del: read_digits.simps)
qed

lemma split_strftime:
  "split_on (CHR ''-'') (strftime_Ym now) = [dec4 (year now), dec2 (month now)]"
  by (simp add: strftime_Ym_def dec4_def dec2_def digit_of_props)

lemma int_pair_strftime:
  assumes "year now < 10000" "month now < 100"
  shows "int_pair (PStr (strftime_Ym now)) = Inr (int (year now), int (month now))"
  by (simp add: int_pair_def split_strftime py_int_dec4[OF assms(1)] py_int_dec2[OF assms(2)] bindE_def)

lemma parse_ym_int_pair:
  "parse_ym s = (case int_pair (PStr s) of Inl _ \<Rightarrow> None | Inr p \<Rightarrow> Some p)"
  by (simp add: int_pair_def parse_ym_def bindE_def split: list.splits sum.splits)

lemma job_months_counted:
  assumes "year now < 10000" "month now < 100"
    and "truthy (map_of job ''start_date'')" "truthy (map_of job ''end_date'')"
  shows "counted_months now job = (case job_months now job of Inl _ \<Rightarrow> None | Inr d \<Rightarrow> Some d)"
proof -
  from assms(3) obtain vs where vs: "map_of job ''start_date'' = Some vs"
    by (auto simp: truthy_def split: option.splits)
  from assms(4) obtain ve where ve: "map_of job ''end_date'' = Some ve"
    by (auto simp: truthy_def split: option.splits)
  show ?thesis
  proof (cases vs)
    case (PList xs)
    then show ?thesis
      by (simp add: job_months_def counted_months_def py_getitem_def bindE_def vs ve int_pair_def)
  next
    case s: (PStr s)
    show ?thesis
    proof (cases ve)
      case (PList ys)
      then show ?thesis
        by (simp add: job_months_def counted_months_def py_getitem_def bindE_def vs ve s int_pair_def
            split: sum.splits list.splits)
    next
      case e: (PStr e)
      have ne: "s \<noteq> []" "e \<noteq> []" using assms(3,4) by (simp_all add: truthy_def vs ve s e)
      show ?thesis
      proof (cases "e = ''Present''")
        case True
        show ?thesis
          using int_pair_strftime[OF assms(1,2)] ne
          by (simp add: job_months_def counted_months_def py_getitem_def bindE_def vs ve s e True
              parse_ym_int_pair split: sum.splits)
      next
        case False
        show ?thesis
          using ne
          by (simp add: job_months_def counted_months_def py_getitem_def bindE_def vs ve s e False
              parse_ym_int_pair split: sum.splits)
      qed
    qed
  qed
qed

lemma counted_months_falsy:
  assumes "\<not> (truthy (map_of job ''start_date'') \<and> truthy (map_of job ''end_date''))"
  shows "counted_months now job = None"
  using assms by (auto simp: counted_months_def truthy_def split: option.splits pyval.splits)

lemma months_loop_sum:
  assumes "year now < 10000" "month now < 100"
  shows "months_loop now jobs acc = acc + spec_total_months now jobs"
proof (induction jobs arbitrary: acc)
  case Nil
  then show ?case by (simp add: spec_total_months_def)
next
  case (Cons job jobs)
  show ?case
  proof (cases "truthy (map_of job ''start_date'') \<and> truthy (map_of job ''end_date'')")
    case True
    then show ?thesis
      using Cons.IH
      by (simp add: spec_total_months_def job_months_counted[OF assms] split: sum.splits)
  next
    case False
    then show ?thesis
      using counted_months_falsy[OF False, of now] Cons.IH
      by (auto simp: spec_total_months_def)
  qed
qed

lemma format_experience_spec: "format_experience t = spec_format t"
  by (simp add: format_experience_def spec_format_def Let_def)

lemma job_years_counted:
  assumes "truthy (map_of job ''start_date'')" "truthy (map_of job ''end_date'')"
  shows "counted_years now job = (case job_years now job of Inl _ \<Rightarrow> None | Inr d \<Rightarrow> Some d)"
proof -
  from assms(1) obtain vs where vs: "map_of job ''start_date'' = Some vs"
    by (auto simp: truthy_def split: option.splits)
  from assms(2) obtain ve where ve: "map_of job ''end_date'' = Some ve"
    by (auto simp: truthy_def split: option.splits)
  show ?thesis
  proof (cases vs)
    case (PList xs)
    then show ?thesis
      using assms(1)
      by (simp add: job_years_def counted_years_def py_getitem_def bindE_def vs ve int_of_first4_def
          truthy_def)
  next
    case s: (PStr s)
    show ?thesis
    proof (cases ve)
      case (PList ys)
      then show ?thesis
        using assms(1)
        by (simp add: job_years_def counted_years_def py_getitem_def bindE_def vs ve s
            int_of_first4_def truthy_def split: sum.splits)
    next
      case e: (PStr e)
      have ne: "s \<noteq> []" "e \<noteq> []" using assms by (simp_all add: truthy_def vs ve s e)
      show ?thesis
        using ne
        by (simp add: job_years_def counted_years_def py_getitem_def bindE_def vs ve s e
            int_of_first4_def truthy_def split: sum.splits)
    qed
  qed
qed

lemma counted_years_falsy:
  assumes "\<not> (truthy (map_of job ''start_date'') \<and> truthy (map_of job ''end_date''))"
  shows "counted_years now job = None"
  using assms by (auto simp: counted_years_def truthy_def split: option.splits pyval.splits)

lemma level_loop_sum:
  "level_loop now jobs acc = acc + spec_total_years now jobs"
proof (induction jobs arbitrary: acc)
  case Nil
  then show ?case by (simp add: spec_total_years_def)
next
  case (Cons job jobs)
  show ?case
  proof (cases "truthy (map_of job ''start_date'') \<and> truthy (map_of job ''end_date'')")
    case True
    then show ?thesis
      using Cons.IH
      by (simp add: spec_total_years_def job_years_counted split: sum.splits)
  next
    case False
    then show ?thesis
      using counted_years_falsy[OF False, of now] Cons.IH
      by (auto simp: spec_total_years_def)
  qed
qed


subsection \<open>The claims\<close>

text \<open>
  Claim C3, as amended. For every list of work entries, \<open>calculate_total_experience\<close> adds up
  the month difference \<open>(end_year - start_year) * 12 + (end_month - start_month)\<close> over
  exactly the entries whose start date and end date are both present, not empty, and parse
  as a year and a month (two integers with one hyphen between them, as \<open>int\<close> reads them),
  the end date \<open>Present\<close> standing for the current calendar month; all other entries are
  passed over. With \<open>Y\<close> the total divided by 12 and \<open>M\<close> the remainder, the result is
  \<open>M months\<close> when \<open>Y\<close> is 0, \<open>Y years\<close> when \<open>M\<close> is 0 and \<open>Y\<close> is not, and
  \<open>Y years M months\<close> otherwise: 6 months give \<open>6 months\<close>, 24 give \<open>2 years\<close>, 15 give
  \<open>1 years 3 months\<close>.
\<close>

theorem C3_total_experience:
  assumes "calendar_date now"
  shows "calculate_total_experience now jobs = spec_format (spec_total_months now jobs) \<and>
         spec_format 6 = ''6 months'' \<and>
         spec_format 24 = ''2 years'' \<and>
         spec_format 15 = ''1 years 3 months''"
proof (intro conjI)
  have y: "year now < 10000" and m: "month now < 100"
    using assms by (simp_all add: calendar_date_def)
  show "calculate_total_experience now jobs = spec_format (spec_total_months now jobs)"
    by (simp add: calculate_total_experience_def months_loop_sum[OF y m] format_experience_spec)
  show "spec_format 6 = ''6 months''" by code_simp
  show "spec_format 24 = ''2 years''" by code_simp
  show "spec_format 15 = ''1 years 3 months''" by code_simp
qed

text \<open>An instance: fifteen months, an entry whose start date does not parse, and six
  months up to the present.\<close>

theorem C3_total_experience_witness:
  "calendar_date \<lparr>year = 2026, month = 11, day = 4\<rparr> \<and>
   calculate_total_experience \<lparr>year = 2026, month = 11, day = 4\<rparr>
     [job_with_dates ''2019-01'' ''2020-04'', job_with_dates ''soon'' ''2020-01'',
      job_with_dates ''2026-05'' ''Present''] = ''1 years 9 months''"
proof -
  have d: "calendar_date \<lparr>year = 2026, month = 11, day = 4\<rparr>"
    by (simp add: calendar_date_def)
  have v: "spec_format (spec_total_months \<lparr>year = 2026, month = 11, day = 4\<rparr>
             [job_with_dates ''2019-01'' ''2020-04'', job_with_dates ''soon'' ''2020-01'',
              job_with_dates ''2026-05'' ''Present'']) = ''1 years 9 months''"
    by code_simp
  show ?thesis
    using d v C3_total_experience[OF d, of "[job_with_dates ''2019-01'' ''2020-04'',
      job_with_dates ''soon'' ''2020-01'', job_with_dates ''2026-05'' ''Present'']"]
    by simp
qed

text \<open>Claim C3 as stated leaves the months out whenever \<open>M\<close> is 0. For a total of 0 months,
  which an empty work history gives, the code returns \<open>0 months\<close>.\<close>

theorem C3_zero_total_counterexample:
  "calculate_total_experience \<lparr>year = 2026, month = 11, day = 4\<rparr> [] = ''0 months''"
  by code_simp

lemma digit_of_not_P: "digit_of n \<noteq> CHR ''P''"
proof -
  have "n mod 10 < 10" by simp
  then have c: "n mod 10 \<in> {0,1,2,3,4,5,6,7,8,9::nat}" by (rule digit_cases)
  show ?thesis using c unfolding digit_of_def by auto
qed

lemma counted_years_ignores_months:
  assumes "y1 < 10000" "y2 < 10000"
  shows "counted_years now (job_with_dates (dec4 y1 @ CHR ''-'' # m1) (dec4 y2 @ CHR ''-'' # m2)) =
           Some (int y2 - int y1)"
proof -
  have t: "take 4 (dec4 y @ CHR ''-'' # m) = dec4 y" for y m
    by (simp add: dec4_def)
  have p: "dec4 y2 @ CHR ''-'' # m2 \<noteq> ''Present''"
    by (simp add: dec4_def digit_of_not_P)
  have n: "dec4 y @ CHR ''-'' # m \<noteq> []" for y m
    by (simp add: dec4_def)
  show ?thesis
    unfolding counted_years_def job_with_dates_def
    by (simp add: t p n py_int_dec4[OF assms(1)] py_int_dec4[OF assms(2)] del: take_append)
qed

text \<open>
  Claim C4, as amended. For every list of work entries and every text,
  \<open>calculate_experience_level\<close> adds up the differences \<open>end_year - start_year\<close> of calendar
  years over the entries whose two dates are present, not empty, and whose first four
  characters read as an integer (\<open>Present\<close> as end date standing for the current year),
  passing over all others. The months of the dates play no part: an entry from the year
  \<open>y1\<close> to the year \<open>y2\<close> counts \<open>y2 - y1\<close>, whatever its months. Exactly when the sum is 0 it
  takes 3 for a text longer than 3000 characters, 1 for a text longer than 1500, else 0;
  the tier is \<open>Experienced\<close> from 5 on, \<open>Intermediate\<close> from 2 to below 5, and \<open>Fresher\<close>
  otherwise. An entry from January 2019 to January 2024 counts 5 and is \<open>Experienced\<close>; one
  from January 2019 to December 2023 counts 4 and is \<open>Intermediate\<close>.
\<close>

theorem C4_experience_level:
  "calculate_experience_level now jobs text = spec_tier (spec_effective_years now jobs text) \<and>
   (y1 < 10000 \<and> y2 < 10000 \<longrightarrow>
      counted_years now (job_with_dates (dec4 y1 @ CHR ''-'' # m1) (dec4 y2 @ CHR ''-'' # m2)) =
        Some (int y2 - int y1)) \<and>
   calculate_experience_level now [job_with_dates ''2019-01'' ''2024-01''] [] = ''Experienced'' \<and>
   calculate_experience_level now [job_with_dates ''2019-01'' ''2023-12''] [] = ''Intermediate''"
proof (intro conjI)
  show "calculate_experience_level now jobs text = spec_tier (spec_effective_years now jobs text)"
    by (simp add: calculate_experience_level_def spec_tier_def spec_effective_years_def
        level_loop_sum Let_def)
  show "y1 < 10000 \<and> y2 < 10000 \<longrightarrow>
      counted_years now (job_with_dates (dec4 y1 @ CHR ''-'' # m1) (dec4 y2 @ CHR ''-'' # m2)) =
        Some (int y2 - int y1)"
    using counted_years_ignores_months by blast
  have five: "spec_total_years now [job_with_dates ''2019-01'' ''2024-01''] = 5"
    by code_simp
  have four: "spec_total_years now [job_with_dates ''2019-01'' ''2023-12''] = 4"
    by code_simp
  show "calculate_experience_level now [job_with_dates ''2019-01'' ''2024-01''] [] = ''Experienced''"
    by (simp add: calculate_experience_level_def level_loop_sum five)
  show "calculate_experience_level now [job_with_dates ''2019-01'' ''2023-12''] [] = ''Intermediate''"
    by (simp add: calculate_experience_level_def level_loop_sum four)
qed

text \<open>An instance: an entry from February 2019 to January 2024 counts 5 years; a history
  without readable dates and a text of 3001 characters is \<open>Intermediate\<close>.\<close>

theorem C4_experience_level_witness:
  "(2019::nat) < 10000 \<and> (2024::nat) < 10000 \<and>
   counted_years \<lparr>year = 2026, month = 11, day = 4\<rparr> (job_with_dates ''2019-02'' ''2024-01'') = Some 5 \<and>
   calculate_experience_level \<lparr>year = 2026, month = 11, day = 4\<rparr>
     [job_with_dates ''20-01'' ''20-01''] (replicate 3001 (CHR ''x'')) = ''Intermediate''"
proof -
  have z: "spec_total_years \<lparr>year = 2026, month = 11, day = 4\<rparr>
             [job_with_dates ''20-01'' ''20-01''] = 0"
    by code_simp
  have d: "dec4 2019 @ CHR ''-'' # ''02'' = ''2019-02''" "dec4 2024 @ CHR ''-'' # ''01'' = ''2024-01''"
    by code_simp+
  show ?thesis
    using C4_experience_level[of "\<lparr>year = 2026, month = 11, day = 4\<rparr>"
        "[job_with_dates ''20-01'' ''20-01'']" "replicate 3001 (CHR ''x'')" 2019 2024 "''02''" "''01''"]
    unfolding d
    by (simp add: spec_effective_years_def spec_tier_def z)
qed

text \<open>Claim C4 as stated has a history of 4 years and 11 months as \<open>Intermediate\<close> and one
  adding up to exactly 5 years as \<open>Experienced\<close>. The code subtracts calendar years. An entry
  from February 2019 to January 2024, 4 years and 11 months by \<open>calculate_total_experience\<close>,
  counts 5 and is \<open>Experienced\<close>. Two entries of 30 months each, 5 years together, count 2
  each and are \<open>Intermediate\<close>.\<close>

theorem C4_calendar_years_counterexample:
  "calculate_total_experience \<lparr>year = 2026, month = 11, day = 4\<rparr>
     [job_with_dates ''2019-02'' ''2024-01''] = ''4 years 11 months'' \<and>
   calculate_experience_level \<lparr>year = 2026, month = 11, day = 4\<rparr>
     [job_with_dates ''2019-02'' ''2024-01''] [] = ''Experienced'' \<and>
   calculate_total_experience \<lparr>year = 2026, month = 11, day = 4\<rparr>
     [job_with_dates ''2019-01'' ''2021-07'', job_with_dates ''2022-01'' ''2024-07''] = ''5 years'' \<and>
   calculate_experience_level \<lparr>year = 2026, month = 11, day = 4\<rparr>
     [job_with_dates ''2019-01'' ''2021-07'', job_with_dates ''2022-01'' ''2024-07''] [] =
     ''Intermediate''"
  by code_simp

section \<open>Skills\<close>

lemma keywords_loop_shape:
  "keywords_loop t c ks skills =
     (case map_of skills c of
        None \<Rightarrow> if filter (keyword_found t) ks = [] then Inr skills else Inl KeyError
      | Some xs \<Rightarrow> Inr (AList.update c (xs @ map title (filter (keyword_found t) ks)) skills))"
proof (induction ks arbitrary: skills)
  case Nil
  then show ?case by (simp add: update_triv split: option.splits)
next
  case (Cons k ks)
  show ?case
    by (simp add: Cons.IH bindE_def py_getitem_def Let_def update_conv'
        split: option.splits)
qed

lemma extract_skills_shape:
  "extract_skills ls text =
     Inr (map (\<lambda>(c, ks). (c, ls (map title (filter (keyword_found (lower text)) ks)))) skill_categories)"
  by (simp add: extract_skills_def skill_categories_def keywords_loop_shape bindE_def py_getitem_def
      Let_def)

lemma search_from_iff:
  "search_from r p s \<noteq> None \<longleftrightarrow>
     (\<exists>pre rest. s = pre @ rest \<and> rmatch r ((char_before p pre, rest), []) \<noteq> [])"
proof
  assume "search_from r p s \<noteq> None"
  then obtain m where "search_from r p s = Some m" by auto
  from search_from_Some[OF this] show "\<exists>pre rest. s = pre @ rest \<and> rmatch r ((char_before p pre, rest), []) \<noteq> []"
    by (metis list.distinct(1))
next
  assume "\<exists>pre rest. s = pre @ rest \<and> rmatch r ((char_before p pre, rest), []) \<noteq> []"
  then obtain pre rest where e: "s = pre @ rest" and r: "rmatch r ((char_before p pre, rest), []) \<noteq> []"
    by blast
  show "search_from r p s \<noteq> None"
  proof
    assume "search_from r p s = None"
    from search_from_None[OF this e] r show False by simp
  qed
qed

lemma char_before_append: "char_before (char_before q xs) ys = char_before q (xs @ ys)"
  by (simp add: char_before_def)

lemma rmatch_Lit:
  "rmatch (Lit k) ((q, rest), g) =
     (if prefix k rest then [((char_before q k, drop (length k) rest), g)] else [])"
proof (induction k arbitrary: q rest)
  case Nil
  then show ?case by (simp add: char_before_def)
next
  case (Cons c cs)
  show ?case
  proof (cases rest)
    case Nil
    then show ?thesis by (simp add: Chr_def)
  next
    case (Cons d ds)
    then show ?thesis
      by (simp add: Chr_def Cons.IH char_before_def)
  qed
qed

lemma rmatch_keyword_re:
  "rmatch (keyword_re k) ((q, rest), g) =
     (if prefix k rest \<and> at_boundary (q, rest) \<and> at_boundary (char_before q k, drop (length k) rest)
      then [((char_before q k, drop (length k) rest), g)] else [])"
  by (simp add: keyword_re_def Seqs_def rmatch_Lit)

lemma keyword_found_iff:
  "keyword_found s k \<longleftrightarrow>
     (\<exists>pre post. s = pre @ k @ post \<and> at_boundary (char_before None pre, k @ post) \<and>
        at_boundary (char_before None (pre @ k), post))"
proof -
  have "keyword_found s k \<longleftrightarrow>
     (\<exists>pre rest. s = pre @ rest \<and> rmatch (keyword_re k) ((char_before None pre, rest), []) \<noteq> [])"
    unfolding keyword_found_def re_search_def by (rule search_from_iff)
  also have "\<dots> \<longleftrightarrow> (\<exists>pre post. s = pre @ k @ post \<and> at_boundary (char_before None pre, k @ post) \<and>
        at_boundary (char_before None (pre @ k), post))"
  proof (intro iffI; elim exE conjE)
    fix pre rest
    assume e: "s = pre @ rest"
      and r: "rmatch (keyword_re k) ((char_before None pre, rest), []) \<noteq> []"
    from r have p: "prefix k rest" and b: "at_boundary (char_before None pre, rest)"
      "at_boundary (char_before None (pre @ k), drop (length k) rest)"
      unfolding rmatch_keyword_re char_before_append by (simp_all split: if_splits)
    from p obtain zs where zs: "rest = k @ zs" by (auto simp: prefix_def)
    show "\<exists>pre post. s = pre @ k @ post \<and> at_boundary (char_before None pre, k @ post) \<and>
        at_boundary (char_before None (pre @ k), post)"
      using e b by (intro exI[of _ pre] exI[of _ zs]) (simp add: zs)
  next
    fix pre post
    assume e: "s = pre @ k @ post" and b: "at_boundary (char_before None pre, k @ post)"
      "at_boundary (char_before None (pre @ k), post)"
    show "\<exists>pre rest. s = pre @ rest \<and> rmatch (keyword_re k) ((char_before None pre, rest), []) \<noteq> []"
      using e b unfolding rmatch_keyword_re char_before_append
      by (intro exI[of _ pre] exI[of _ "k @ post"]) simp
  qed
  finally show ?thesis .
qed

lemma is_word_to_lower_all: "\<forall>c. is_word (to_lower c) = is_word c"
  by code_simp

lemma is_word_to_lower: "is_word (to_lower c) = is_word c"
  using is_word_to_lower_all by blast

lemma lower_eq_append3:
  "lower text = pre' @ k @ post' \<longleftrightarrow>
     (\<exists>pre w post. text = pre @ w @ post \<and> lower pre = pre' \<and> lower w = k \<and> lower post = post')"
proof
  assume a: "lower text = pre' @ k @ post'"
  from a[unfolded lower_def map_eq_append_conv] obtain us vs where
    t: "text = us @ vs" and u: "lower us = pre'" and v: "map to_lower vs = k @ post'"
    unfolding lower_def by metis
  from v[unfolded map_eq_append_conv] obtain w post where
    "vs = w @ post" "lower w = k" "lower post = post'"
    unfolding lower_def by metis
  with t u show "\<exists>pre w post. text = pre @ w @ post \<and> lower pre = pre' \<and> lower w = k \<and> lower post = post'"
    by blast
next
  assume "\<exists>pre w post. text = pre @ w @ post \<and> lower pre = pre' \<and> lower w = k \<and> lower post = post'"
  then show "lower text = pre' @ k @ post'"
    by (auto simp: lower_def)
qed


lemma at_boundary_word_start:
  assumes "k \<noteq> []" "is_word (hd k)"
  shows "at_boundary (char_before None pre, k @ post) \<longleftrightarrow> pre = [] \<or> \<not> is_word (last pre)"
  using assms by (cases k) (auto simp: at_boundary_def word_before_def word_after_def char_before_def)

lemma at_boundary_word_end:
  assumes "k \<noteq> []" "is_word (last k)"
  shows "at_boundary (char_before None (pre @ k), post) \<longleftrightarrow> post = [] \<or> \<not> is_word (hd post)"
  using assms
  by (cases post) (auto simp: at_boundary_def word_before_def word_after_def char_before_def)

lemma is_word_last_lower: "pre \<noteq> [] \<Longrightarrow> is_word (last (lower pre)) = is_word (last pre)"
  by (simp add: lower_def last_map is_word_to_lower)

lemma is_word_hd_lower: "post \<noteq> [] \<Longrightarrow> is_word (hd (lower post)) = is_word (hd post)"
  by (simp add: lower_def hd_map is_word_to_lower)

lemma keyword_found_whole_word:
  assumes "k \<noteq> []" "is_word (hd k)" "is_word (last k)"
  shows "keyword_found (lower text) k \<longleftrightarrow>
           (\<exists>pre w post. text = pre @ w @ post \<and> whole_word k pre w post)"
proof -
  have "keyword_found (lower text) k \<longleftrightarrow>
     (\<exists>pre' post'. lower text = pre' @ k @ post' \<and> (pre' = [] \<or> \<not> is_word (last pre')) \<and>
        (post' = [] \<or> \<not> is_word (hd post')))"
    unfolding keyword_found_iff
    by (simp add: at_boundary_word_start[OF assms(1,2)] at_boundary_word_end[OF assms(1,3)])
  also have "\<dots> \<longleftrightarrow> (\<exists>pre w post. text = pre @ w @ post \<and> whole_word k pre w post)"
  proof (intro iffI; elim exE conjE)
    fix pre' post'
    assume e: "lower text = pre' @ k @ post'" and b: "pre' = [] \<or> \<not> is_word (last pre')"
      "post' = [] \<or> \<not> is_word (hd post')"
    from e obtain pre w post where t: "text = pre @ w @ post" and l: "lower pre = pre'"
      "lower w = k" "lower post = post'"
      unfolding lower_eq_append3 by blast
    have "pre = [] \<or> \<not> is_word (last pre)"
      using b(1) l(1) is_word_last_lower[of pre] by (auto simp: lower_def)
    moreover have "post = [] \<or> \<not> is_word (hd post)"
      using b(2) l(3) is_word_hd_lower[of post] by (auto simp: lower_def)
    ultimately show "\<exists>pre w post. text = pre @ w @ post \<and> whole_word k pre w post"
      using t l(2) unfolding whole_word_def by blast
  next
    fix pre w post
    assume t: "text = pre @ w @ post" and w: "whole_word k pre w post"
    have e: "lower text = lower pre @ k @ lower post"
      using t w by (simp add: lower_def whole_word_def)
    have "lower pre = [] \<or> \<not> is_word (last (lower pre))"
      using w is_word_last_lower[of pre] by (auto simp: whole_word_def lower_def)
    moreover have "lower post = [] \<or> \<not> is_word (hd (lower post))"
      using w is_word_hd_lower[of post] by (auto simp: whole_word_def lower_def)
    ultimately show "\<exists>pre' post'. lower text = pre' @ k @ post' \<and> (pre' = [] \<or> \<not> is_word (last pre')) \<and>
        (post' = [] \<or> \<not> is_word (hd post'))"
      using e by blast
  qed
  finally show ?thesis .
qed


lemma titles_distinct: "list_all (\<lambda>(c, ks). distinct (map title ks)) skill_categories"
  by code_simp

lemma keywords_nonempty: "list_all (\<lambda>(c, ks). list_all (\<lambda>k. k \<noteq> []) ks) skill_categories"
  by code_simp

lemma categories_distinct: "distinct (map fst skill_categories)"
  by code_simp


lemma skills_lookup:
  assumes "(c, ks) \<in> set skill_categories"
  shows "map_of (map (\<lambda>(c, ks). (c, f ks)) skill_categories) c = Some (f ks)"
proof -
  from assms categories_distinct have "map_of skill_categories c = Some ks"
    by (rule map_of_is_SomeI[rotated])
  then show ?thesis by (simp add: map_of_map)
qed

lemma title_found_iff:
  assumes c: "(c, ks) \<in> set skill_categories" and k: "k \<in> set ks"
  shows "title k \<in> title ` {k' \<in> set ks. F k'} \<longleftrightarrow> F k"
proof -
  from titles_distinct c have "distinct (map title ks)"
    by (auto simp: list_all_iff)
  then have "inj_on title (set ks)" by (simp add: distinct_map)
  with k show ?thesis by (auto dest: inj_onD)
qed








lemma follows_here:
  "(prefix k (lower s) \<and> (case drop (length k) s of [] \<Rightarrow> False | d # _ \<Rightarrow> is_word d)) \<longleftrightarrow>
   (\<exists>w post. s = w @ post \<and> lower w = k \<and> post \<noteq> [] \<and> is_word (hd post))"
proof
  assume a: "prefix k (lower s) \<and> (case drop (length k) s of [] \<Rightarrow> False | d # _ \<Rightarrow> is_word d)"
  then obtain zs where "lower s = k @ zs" by (auto simp: prefix_def)
  then have k: "lower (take (length k) s) = k"
    by (simp add: lower_def take_map[symmetric])
  have "s = take (length k) s @ drop (length k) s" by simp
  moreover from a have "drop (length k) s \<noteq> [] \<and> is_word (hd (drop (length k) s))"
    by (auto split: list.splits)
  ultimately show "\<exists>w post. s = w @ post \<and> lower w = k \<and> post \<noteq> [] \<and> is_word (hd post)"
    using k by blast
next
  assume "\<exists>w post. s = w @ post \<and> lower w = k \<and> post \<noteq> [] \<and> is_word (hd post)"
  then obtain w post where "s = w @ post" "lower w = k" "post \<noteq> []" "is_word (hd post)" by blast
  then show "prefix k (lower s) \<and> (case drop (length k) s of [] \<Rightarrow> False | d # _ \<Rightarrow> is_word d)"
    by (auto simp: lower_def split: list.splits)
qed

lemma word_char_follows_iff:
  "word_char_follows k text \<longleftrightarrow>
     (\<exists>pre w post. text = pre @ w @ post \<and> lower w = k \<and> post \<noteq> [] \<and> is_word (hd post))"
proof (induction "text")
  case Nil
  then show ?case by simp
next
  case (Cons c cs)
  have "(\<exists>pre w post. c # cs = pre @ w @ post \<and> lower w = k \<and> post \<noteq> [] \<and> is_word (hd post)) \<longleftrightarrow>
        (\<exists>w post. c # cs = w @ post \<and> lower w = k \<and> post \<noteq> [] \<and> is_word (hd post)) \<or>
        (\<exists>pre w post. cs = pre @ w @ post \<and> lower w = k \<and> post \<noteq> [] \<and> is_word (hd post))"
    (is "?L \<longleftrightarrow> ?A \<or> ?B")
  proof
    assume ?L
    then obtain pre w post where e: "c # cs = pre @ w @ post" and r: "lower w = k" "post \<noteq> []" "is_word (hd post)"
      by blast
    show "?A \<or> ?B"
    proof (cases pre)
      case Nil
      with e r show ?thesis by auto
    next
      case (Cons d pre')
      with e have "cs = pre' @ w @ post" by simp
      with r show ?thesis by blast
    qed
  next
    assume "?A \<or> ?B"
    then show ?L
    proof
      assume ?A
      then obtain w post where "c # cs = [] @ w @ post" "lower w = k" "post \<noteq> []" "is_word (hd post)"
        by auto
      then show ?L by blast
    next
      assume ?B
      then obtain pre w post where "c # cs = (c # pre) @ w @ post" "lower w = k" "post \<noteq> []" "is_word (hd post)"
        by auto
      then show ?L by blast
    qed
  qed
  then show ?case
    using Cons.IH follows_here[of k "c # cs"] by simp
qed

lemma at_boundary_punct_end:
  assumes "k \<noteq> []" "\<not> is_word (last k)"
  shows "at_boundary (char_before None (pre @ k), post) \<longleftrightarrow> post \<noteq> [] \<and> is_word (hd post)"
  using assms
  by (cases post) (auto simp: at_boundary_def word_before_def word_after_def char_before_def)

lemma keyword_found_punct:
  assumes "k \<noteq> []" "is_word (hd k)" "\<not> is_word (last k)"
  shows "keyword_found (lower text) k \<longleftrightarrow>
           (\<exists>pre w post. text = pre @ w @ post \<and> lower w = k \<and> (pre = [] \<or> \<not> is_word (last pre)) \<and>
              post \<noteq> [] \<and> is_word (hd post))"
proof -
  have "keyword_found (lower text) k \<longleftrightarrow>
     (\<exists>pre' post'. lower text = pre' @ k @ post' \<and> (pre' = [] \<or> \<not> is_word (last pre')) \<and>
        post' \<noteq> [] \<and> is_word (hd post'))"
    unfolding keyword_found_iff
    by (simp add: at_boundary_word_start[OF assms(1,2)] at_boundary_punct_end[OF assms(1,3)])
  also have "\<dots> \<longleftrightarrow> (\<exists>pre w post. text = pre @ w @ post \<and> lower w = k \<and> (pre = [] \<or> \<not> is_word (last pre)) \<and>
              post \<noteq> [] \<and> is_word (hd post))"
  proof (intro iffI; elim exE conjE)
    fix pre' post'
    assume e: "lower text = pre' @ k @ post'" and b: "pre' = [] \<or> \<not> is_word (last pre')"
      "post' \<noteq> []" "is_word (hd post')"
    from e obtain pre w post where t: "text = pre @ w @ post" and l: "lower pre = pre'"
      "lower w = k" "lower post = post'"
      unfolding lower_eq_append3 by blast
    have "pre = [] \<or> \<not> is_word (last pre)"
      using b(1) l(1) is_word_last_lower[of pre] by (auto simp: lower_def)
    moreover have "post \<noteq> [] \<and> is_word (hd post)"
      using b(2,3) l(3) is_word_hd_lower[of post] by (auto simp: lower_def)
    ultimately show "\<exists>pre w post. text = pre @ w @ post \<and> lower w = k \<and> (pre = [] \<or> \<not> is_word (last pre)) \<and>
              post \<noteq> [] \<and> is_word (hd post)"
      using t l(2) by blast
  next
    fix pre w post
    assume t: "text = pre @ w @ post" and w: "lower w = k" "pre = [] \<or> \<not> is_word (last pre)"
      "post \<noteq> []" "is_word (hd post)"
    have e: "lower text = lower pre @ k @ lower post"
      using t w by (simp add: lower_def)
    have "lower pre = [] \<or> \<not> is_word (last (lower pre))"
      using w is_word_last_lower[of pre] by (auto simp: lower_def)
    moreover have "lower post \<noteq> [] \<and> is_word (hd (lower post))"
      using w is_word_hd_lower[of post] by (auto simp: lower_def)
    ultimately show "\<exists>pre' post'. lower text = pre' @ k @ post' \<and> (pre' = [] \<or> \<not> is_word (last pre')) \<and>
        post' \<noteq> [] \<and> is_word (hd post')"
      using e by blast
  qed
  finally show ?thesis .
qed


text \<open>Instances are stated for one order that lists each element once: first occurrences
  first.\<close>

lemma lists_each_once_remdups: "lists_each_once remdups"
  by (simp add: lists_each_once_def)


text \<open>
  Claim C10. The keywords \<open>c++\<close> and \<open>c#\<close> end in a character that is not a word character,
  so the word boundary after them exists only before a word character: \<open>C++\<close> is among the
  programming skills exactly when the text has \<open>c++\<close>, in any case, not preceded by a word
  character and directly followed by one, and likewise \<open>C#\<close>. In a text where every \<open>c++\<close>
  is followed by a character that is not a word character, or by the end of the text,
  \<open>C++\<close> is not among the programming skills, and likewise \<open>C#\<close>.
\<close>

theorem C10_punctuated_keywords:
  assumes "lists_each_once list_of_set"
  shows "\<exists>skills programming.
     extract_skills list_of_set text = Inr skills \<and>
     map_of skills ''programming'' = Some programming \<and>
     (''C++'' \<in> set programming \<longleftrightarrow>
        (\<exists>pre w post. text = pre @ w @ post \<and> lower w = ''c++'' \<and>
           (pre = [] \<or> \<not> is_word (last pre)) \<and> post \<noteq> [] \<and> is_word (hd post))) \<and>
     (''C#'' \<in> set programming \<longleftrightarrow>
        (\<exists>pre w post. text = pre @ w @ post \<and> lower w = ''c#'' \<and>
           (pre = [] \<or> \<not> is_word (last pre)) \<and> post \<noteq> [] \<and> is_word (hd post))) \<and>
     ((\<forall>pre w post. text = pre @ w @ post \<and> lower w = ''c++'' \<longrightarrow> post = [] \<or> \<not> is_word (hd post))
        \<longrightarrow> ''C++'' \<notin> set programming) \<and>
     ((\<forall>pre w post. text = pre @ w @ post \<and> lower w = ''c#'' \<longrightarrow> post = [] \<or> \<not> is_word (hd post))
        \<longrightarrow> ''C#'' \<notin> set programming)"
proof -
  define F where "F = keyword_found (lower text)"
  define pks where "pks = [''python'', ''java'', ''javascript'', ''typescript'', ''c++'', ''c#'',
     ''php'', ''ruby'']"
  define programming where "programming = list_of_set (map title (filter F pks))"
  define skills where
    "skills = map (\<lambda>(c, ks). (c, list_of_set (map title (filter F ks)))) skill_categories"
  have ex: "extract_skills list_of_set text = Inr skills"
    by (simp add: extract_skills_shape skills_def F_def)
  have c: "(''programming'', pks) \<in> set skill_categories"
    by (simp add: skill_categories_def pks_def)
  have look: "map_of skills ''programming'' = Some programming"
    unfolding skills_def programming_def using c by (rule skills_lookup)
  have s: "set programming = title ` {k \<in> set pks. F k}"
    using assms by (auto simp: programming_def lists_each_once_def)
  have e: "is_word (hd ''c++'')" "\<not> is_word (last ''c++'')" "title ''c++'' = ''C++''"
    "is_word (hd ''c#'')" "\<not> is_word (last ''c#'')" "title ''c#'' = ''C#''"
    by code_simp+
  have k: "''c++'' \<in> set pks" "''c#'' \<in> set pks"
    by (simp_all add: pks_def)
  have cpp: "''C++'' \<in> set programming \<longleftrightarrow>
        (\<exists>pre w post. text = pre @ w @ post \<and> lower w = ''c++'' \<and>
           (pre = [] \<or> \<not> is_word (last pre)) \<and> post \<noteq> [] \<and> is_word (hd post))"
    using title_found_iff[OF c k(1), of F] keyword_found_punct[OF _ e(1,2), of "text"]
    by (simp add: s e(3) F_def)
  have cs: "''C#'' \<in> set programming \<longleftrightarrow>
        (\<exists>pre w post. text = pre @ w @ post \<and> lower w = ''c#'' \<and>
           (pre = [] \<or> \<not> is_word (last pre)) \<and> post \<noteq> [] \<and> is_word (hd post))"
    using title_found_iff[OF c k(2), of F] keyword_found_punct[OF _ e(4,5), of "text"]
    by (simp add: s e(6) F_def)
  have "(\<forall>pre w post. text = pre @ w @ post \<and> lower w = ''c++'' \<longrightarrow> post = [] \<or> \<not> is_word (hd post))
        \<longrightarrow> ''C++'' \<notin> set programming"
    unfolding cpp by blast
  moreover have "(\<forall>pre w post. text = pre @ w @ post \<and> lower w = ''c#'' \<longrightarrow> post = [] \<or> \<not> is_word (hd post))
        \<longrightarrow> ''C#'' \<notin> set programming"
    unfolding cs by blast
  ultimately show ?thesis
    using ex look cpp cs by blast
qed

text \<open>An instance: the text \<open>Skills: C++, C#.\<close>, which names both languages and gets
  neither; in it no \<open>c++\<close> and no \<open>c#\<close> is followed by a word character. In \<open>C++\<close> followed
  by the letter U+00E9 a word character follows, and the language is found.\<close>

theorem C10_punctuated_keywords_witness:
  "lists_each_once remdups \<and>
   \<not> word_char_follows ''c++'' ''Skills: C++, C#.'' \<and>
   \<not> word_char_follows ''c#'' ''Skills: C++, C#.'' \<and>
   (\<exists>skills programming.
      extract_skills remdups ''Skills: C++, C#.'' = Inr skills \<and>
      map_of skills ''programming'' = Some programming \<and>
      ''C++'' \<notin> set programming \<and> ''C#'' \<notin> set programming) \<and>
   word_char_follows ''c++'' (''C++'' @ [CHR 0xE9]) \<and>
   extract_skills remdups (''C++'' @ [CHR 0xE9]) =
     Inr [(''programming'', [''C++'']), (''web'', []), (''data'', []), (''devops'', []),
          (''tools'', []), (''soft_skills'', [])]"
proof -
  have e: "word_char_follows ''c++'' (''C++'' @ [CHR 0xE9])"
    "extract_skills remdups (''C++'' @ [CHR 0xE9]) =
     Inr [(''programming'', [''C++'']), (''web'', []), (''data'', []), (''devops'', []),
          (''tools'', []), (''soft_skills'', [])]"
    by code_simp+
  have a0: "\<not> word_char_follows ''c++'' ''Skills: C++, C#.''"
    by code_simp
  then have a: "\<forall>pre w post. ''Skills: C++, C#.'' = pre @ w @ post \<and> lower w = ''c++'' \<longrightarrow>
      post = [] \<or> \<not> is_word (hd post)"
    unfolding word_char_follows_iff by blast
  have b0: "\<not> word_char_follows ''c#'' ''Skills: C++, C#.''"
    by code_simp
  then have b: "\<forall>pre w post. ''Skills: C++, C#.'' = pre @ w @ post \<and> lower w = ''c#'' \<longrightarrow>
      post = [] \<or> \<not> is_word (hd post)"
    unfolding word_char_follows_iff by blast
  from C10_punctuated_keywords[OF lists_each_once_remdups, of "''Skills: C++, C#.''"] a b
  show ?thesis
    using lists_each_once_remdups a0 b0 e by blast
qed

section \<open>Summary\<close>

lemma contains_sublist: "contains k s \<longleftrightarrow> sublist k s"
  by (induction s) (simp_all add: sublist_Cons_right)

lemma sublist_map: "sublist xs ys \<Longrightarrow> sublist (map f xs) (map f ys)"
  unfolding sublist_def by (metis map_append)

lemma sublist_strip: "sublist (strip s) s"
proof -
  have "sublist (rev (strip s)) (rev (dropWhile is_space s))"
    unfolding strip_def by simp
  then have "sublist (strip s) (dropWhile is_space s)"
    by (simp only: sublist_rev)
  also have "sublist (dropWhile is_space s) s" by simp
  finally show ?thesis .
qed

lemma sublist_across_separator:
  assumes "c \<notin> set k" "k \<noteq> []"
  shows "sublist k (xs @ c # ys) \<longleftrightarrow> sublist k xs \<or> sublist k ys"
proof
  assume "sublist k (xs @ c # ys)"
  then consider "sublist k xs" | "sublist k (c # ys)"
    | k1 k2 where "k = k1 @ k2" "suffix k1 xs" "prefix k2 (c # ys)"
    unfolding sublist_append by blast
  then show "sublist k xs \<or> sublist k ys"
  proof cases
    case 1
    then show ?thesis by simp
  next
    case 2
    then have "prefix k (c # ys) \<or> sublist k ys" by (simp add: sublist_Cons_right)
    moreover have "\<not> prefix k (c # ys)"
      using assms by (cases k) (auto simp: prefix_def)
    ultimately show ?thesis by simp
  next
    case 3
    show ?thesis
    proof (cases k2)
      case Nil
      with 3 have "suffix k xs" by simp
      then show ?thesis by (auto simp: suffix_def)
    next
      case (Cons d ds)
      with 3(3) have "d = c" by (simp add: prefix_def)
      with 3(1) Cons assms(1) show ?thesis by simp
    qed
  qed
next
  assume "sublist k xs \<or> sublist k ys"
  then show "sublist k (xs @ c # ys)"
  proof
    assume "sublist k xs"
    then show ?thesis unfolding sublist_def by (metis append_assoc)
  next
    assume "sublist k ys"
    then obtain ps ss where "ys = ps @ k @ ss" by (auto simp: sublist_def)
    then have "xs @ c # ys = (xs @ c # ps) @ k @ ss" by simp
    then show ?thesis unfolding sublist_def by blast
  qed
qed

lemma to_lower_space: "to_lower (CHR '' '') = CHR '' ''"
  by code_simp

lemma no_keyword_in_joined:
  assumes "CHR '' '' \<notin> set k" "k \<noteq> []" "\<forall>l \<in> set ls. \<not> sublist k (lower l)"
  shows "\<not> sublist k (lower (concat (map (\<lambda>l. l @ '' '') ls)))"
  using assms(3)
proof (induction ls)
  case Nil
  with assms(2) show ?case by (simp add: lower_def)
next
  case (Cons l ls)
  have "lower (concat (map (\<lambda>l. l @ '' '') (l # ls))) =
        lower l @ CHR '' '' # lower (concat (map (\<lambda>l. l @ '' '') ls))"
    by (simp add: lower_def to_lower_space)
  with Cons show ?case
    by (simp add: sublist_across_separator[OF assms(1,2)])
qed

lemma summary_loop_joined:
  "\<exists>ls. set ls \<subseteq> strip ` set lines \<and> (\<forall>l \<in> set ls. \<not> any_in summary_headers (lower l)) \<and>
        summary_loop lines b acc = acc @ concat (map (\<lambda>l. l @ '' '') ls)"
proof (induction lines arbitrary: b acc)
  case Nil
  show ?case by (intro exI[of _ "[]"]) simp
next
  case (Cons line rest)
  have keep: "\<exists>ls. set ls \<subseteq> strip ` set (line # rest) \<and>
        (\<forall>l \<in> set ls. \<not> any_in summary_headers (lower l)) \<and>
        summary_loop rest b' acc = acc @ concat (map (\<lambda>l. l @ '' '') ls)" for b'
    using Cons.IH[of b' acc] by auto
  have stop: "\<exists>ls. set ls \<subseteq> strip ` set (line # rest) \<and>
        (\<forall>l \<in> set ls. \<not> any_in summary_headers (lower l)) \<and>
        acc = acc @ concat (map (\<lambda>l. l @ '' '') ls)"
    by (intro exI[of _ "[]"]) simp
  have add: "\<exists>ls. set ls \<subseteq> strip ` set (line # rest) \<and>
        (\<forall>l \<in> set ls. \<not> any_in summary_headers (lower l)) \<and>
        summary_loop rest b (acc @ strip line @ '' '') = acc @ concat (map (\<lambda>l. l @ '' '') ls)"
    if "\<not> any_in summary_headers (lower (strip line))"
  proof -
    from Cons.IH[of b "acc @ strip line @ '' ''"] obtain ls where
      ls: "set ls \<subseteq> strip ` set rest" "\<forall>l \<in> set ls. \<not> any_in summary_headers (lower l)"
      "summary_loop rest b (acc @ strip line @ '' '') = (acc @ strip line @ '' '') @ concat (map (\<lambda>l. l @ '' '') ls)"
      by blast
    show ?thesis
      using ls that by (intro exI[of _ "strip line # ls"]) auto
  qed
  show ?case
  proof (cases "any_in summary_headers (lower (strip line))")
    case True
    then show ?thesis using keep[of True] by (simp add: Let_def)
  next
    case header: False
    show ?thesis
    proof (cases b)
      case False
      then show ?thesis using header keep[of False] by (simp add: Let_def)
    next
      case True
      show ?thesis
      proof (cases "strip line \<noteq> [] \<and> length (strip line) > 10")
        case long: True
        show ?thesis
        proof (cases "any_in summary_stops (lower (strip line))")
          case True
          then show ?thesis using header \<open>b\<close> long stop by (simp add: Let_def)
        next
          case False
          then show ?thesis using header \<open>b\<close> long add[OF header] by (simp add: Let_def)
        qed
      next
        case short: False
        show ?thesis
        proof (cases "acc \<noteq> []")
          case True
          then show ?thesis using header \<open>b\<close> short stop by (auto simp: Let_def)
        next
          case False
          then show ?thesis using header \<open>b\<close> short keep[of True] by (auto simp: Let_def)
        qed
      qed
    qed
  qed
qed


lemma keywords_plain:
  "\<forall>k \<in> set summary_headers. CHR '' '' \<notin> set k \<and> k \<noteq> []"
  by (simp add: summary_headers_def)

lemma any_in_sublist: "any_in ks s \<longleftrightarrow> (\<exists>k \<in> set ks. sublist k s)"
  by (simp add: any_in_def list_ex_iff contains_sublist)

text \<open>
  Claim C9. For every text, a line that contains \<open>summary\<close>, \<open>objective\<close>, \<open>profile\<close> or
  \<open>about\<close>, in any case, is passed over by \<open>extract_summary\<close>, before and after the
  accumulation has begun: the summary is the trimmed concatenation, each followed by a
  space, of trimmed lines of the text that contain none of the four words. So none of the
  four words occurs in the summary, in any case, and the summary contains no string that
  contains one of them.
\<close>

theorem C9_summary_skips_headers:
  "(\<exists>ls. set ls \<subseteq> strip ` set (split_lines text) \<and>
         (\<forall>l \<in> set ls. \<not> any_in summary_headers (lower l)) \<and>
         extract_summary text = strip (concat (map (\<lambda>l. l @ '' '') ls))) \<and>
   \<not> any_in summary_headers (lower (extract_summary text)) \<and>
   (\<forall>line. any_in summary_headers (lower line) \<longrightarrow> \<not> contains line (extract_summary text))"
proof -
  from summary_loop_joined[of "split_lines text" False "[]"] obtain ls where
    ls: "set ls \<subseteq> strip ` set (split_lines text)"
        "\<forall>l \<in> set ls. \<not> any_in summary_headers (lower l)"
        "summary_loop (split_lines text) False [] = concat (map (\<lambda>l. l @ '' '') ls)"
    by auto
  have ex: "extract_summary text = strip (concat (map (\<lambda>l. l @ '' '') ls))"
    by (simp add: extract_summary_def ls(3))
  have none: "\<not> sublist k (lower (extract_summary text))" if k: "k \<in> set summary_headers" for k
  proof
    assume a: "sublist k (lower (extract_summary text))"
    have "sublist (lower (extract_summary text)) (lower (concat (map (\<lambda>l. l @ '' '') ls)))"
      unfolding ex lower_def by (rule sublist_map) (rule sublist_strip)
    with a have "sublist k (lower (concat (map (\<lambda>l. l @ '' '') ls)))"
      by (rule sublist_order.order.trans)
    moreover have "\<forall>l \<in> set ls. \<not> sublist k (lower l)"
      using ls(2) k by (auto simp: any_in_sublist)
    ultimately show False
      using no_keyword_in_joined[of k ls] keywords_plain k by blast
  qed
  then have second: "\<not> any_in summary_headers (lower (extract_summary text))"
    by (auto simp: any_in_sublist)
  have third: "\<not> contains line (extract_summary text)" if h: "any_in summary_headers (lower line)" for line
  proof
    assume "contains line (extract_summary text)"
    then have "sublist (lower line) (lower (extract_summary text))"
      unfolding lower_def contains_sublist by (rule sublist_map)
    moreover from h obtain k where k: "k \<in> set summary_headers" "sublist k (lower line)"
      by (auto simp: any_in_sublist)
    ultimately have "sublist k (lower (extract_summary text))"
      by (meson sublist_order.order.trans)
    with none[OF k(1)] show False by simp
  qed
  show ?thesis
    using ls(1,2) ex second third by blast
qed


text \<open>An instance: a line with \<open>About\<close> after the accumulation has begun.\<close>

theorem C9_summary_skips_headers_witness:
  "any_in summary_headers (lower ''About me: nothing here at all'') \<and>
   \<not> contains ''About me: nothing here at all''
      (extract_summary (''Profile'' @ [CHR 0x0A] @ ''Engineer who builds reliable systems.'' @
         [CHR 0x0A] @ ''About me: nothing here at all'' @ [CHR 0x0A] @
         ''And more text follows here.'')) \<and>
   extract_summary (''Profile'' @ [CHR 0x0A] @ ''Engineer who builds reliable systems.'' @
         [CHR 0x0A] @ ''About me: nothing here at all'' @ [CHR 0x0A] @
         ''And more text follows here.'') =
     ''Engineer who builds reliable systems. And more text follows here.''"
proof -
  have h: "any_in summary_headers (lower ''About me: nothing here at all'')"
    by code_simp
  have v: "extract_summary (''Profile'' @ [CHR 0x0A] @ ''Engineer who builds reliable systems.'' @
         [CHR 0x0A] @ ''About me: nothing here at all'' @ [CHR 0x0A] @
         ''And more text follows here.'') =
     ''Engineer who builds reliable systems. And more text follows here.''"
    by code_simp
  from C9_summary_skips_headers[of "''Profile'' @ [CHR 0x0A] @
         ''Engineer who builds reliable systems.'' @
         [CHR 0x0A] @ ''About me: nothing here at all'' @ [CHR 0x0A] @
         ''And more text follows here.''"] h
  have "\<not> contains ''About me: nothing here at all''
      (extract_summary (''Profile'' @ [CHR 0x0A] @ ''Engineer who builds reliable systems.'' @
         [CHR 0x0A] @ ''About me: nothing here at all'' @ [CHR 0x0A] @
         ''And more text follows here.''))"
    by blast
  with h v show ?thesis by blast
qed

section \<open>Personal information\<close>

lemma ends_with_newline_Cons:
  "(\<exists>s'. c # cs = s' @ [CHR 0x0A] \<and> list_all P s') \<longleftrightarrow>
   (c = CHR 0x0A \<and> cs = []) \<or> (P c \<and> (\<exists>s''. cs = s'' @ [CHR 0x0A] \<and> list_all P s''))"
  (is "?L \<longleftrightarrow> ?R")
proof
  assume ?L
  then obtain s' where s': "c # cs = s' @ [CHR 0x0A]" "list_all P s'" by blast
  then show ?R by (cases s') auto
next
  assume ?R
  then show ?L
  proof
    assume "c = CHR 0x0A \<and> cs = []"
    then have "c # cs = [] @ [CHR 0x0A] \<and> list_all P []" by simp
    then show ?L by blast
  next
    assume "P c \<and> (\<exists>s''. cs = s'' @ [CHR 0x0A] \<and> list_all P s'')"
    then obtain s'' where "c # cs = (c # s'') @ [CHR 0x0A] \<and> list_all P (c # s'')" by auto
    then show ?L by blast
  qed
qed

lemma run_reaches_end:
  "(\<exists>q \<in> set (run P None (p, s)). snd q = [] \<or> snd q = [CHR 0x0A]) \<longleftrightarrow>
     list_all P s \<or> (\<exists>s'. s = s' @ [CHR 0x0A] \<and> list_all P s')"
proof (induction s arbitrary: p)
  case Nil
  then show ?case by simp
next
  case (Cons c cs)
  define A where "A \<longleftrightarrow> (\<exists>q \<in> set (run P None (Some c, cs)). snd q = [] \<or> snd q = [CHR 0x0A])"
  define B where "B \<longleftrightarrow> (\<exists>s''. cs = s'' @ [CHR 0x0A] \<and> list_all P s'')"
  have ih: "A \<longleftrightarrow> list_all P cs \<or> B"
    unfolding A_def B_def by (rule Cons.IH)
  have lhs: "(\<exists>q \<in> set (run P None (p, c # cs)). snd q = [] \<or> snd q = [CHR 0x0A]) \<longleftrightarrow>
        (c = CHR 0x0A \<and> cs = []) \<or> (P c \<and> A)"
    unfolding A_def by fastforce
  have rhs: "(\<exists>s'. c # cs = s' @ [CHR 0x0A] \<and> list_all P s') \<longleftrightarrow> (c = CHR 0x0A \<and> cs = []) \<or> (P c \<and> B)"
    unfolding B_def by (rule ends_with_newline_Cons)
  show ?case
    unfolding lhs rhs ih by auto
qed

lemma name_char_newline: "name_char (CHR 0x0A)"
  by (simp add: name_char_def is_space_def)

lemma rmatch_Eol_last:
  "rmatch (Seq Eol Eps) (q, g) \<noteq> [] \<longleftrightarrow> snd q = [] \<or> snd q = [CHR 0x0A]"
  by (cases q) simp

lemma re_match_name_re:
  "re_match name_re l \<noteq> None \<longleftrightarrow> l \<noteq> [] \<and> list_all name_char l"
proof (cases l)
  case Nil
  then show ?thesis by (simp add: re_match_def name_re_def Seqs_def)
next
  case (Cons c cs)
  have "re_match name_re l \<noteq> None \<longleftrightarrow> rmatch name_re ((None, l), []) \<noteq> []"
    by (simp add: re_match_def split: list.splits prod.splits)
  also have "\<dots> \<longleftrightarrow> name_char c \<and>
      (\<exists>q \<in> set (run name_char None (Some c, cs)). rmatch (Seq Eol Eps) (q, []) \<noteq> [])"
    by (fastforce simp: name_re_def Seqs_def Cons simp del: rmatch.simps(10))
  also have "\<dots> \<longleftrightarrow> name_char c \<and>
      (\<exists>q \<in> set (run name_char None (Some c, cs)). snd q = [] \<or> snd q = [CHR 0x0A])"
    unfolding rmatch_Eol_last ..
  also have "\<dots> \<longleftrightarrow> name_char c \<and>
      (list_all name_char cs \<or> (\<exists>s'. cs = s' @ [CHR 0x0A] \<and> list_all name_char s'))"
    unfolding run_reaches_end ..
  also have "\<dots> \<longleftrightarrow> l \<noteq> [] \<and> list_all name_char l"
    by (auto simp: Cons name_char_newline)
  finally show ?thesis .
qed


lemma strip_is_take: "\<exists>n. strip s = take n (dropWhile is_space s)"
proof -
  define t where "t = dropWhile is_space s"
  have "dropWhile is_space (rev t) = drop (length (takeWhile is_space (rev t))) (rev t)"
    by (rule dropWhile_eq_drop)
  then have "strip s = take (length t - length (takeWhile is_space (rev t))) t"
    by (simp add: strip_def t_def[symmetric] drop_rev)
  then show ?thesis unfolding t_def by blast
qed

lemma strip_hd: "strip s \<noteq> [] \<Longrightarrow> \<not> is_space (hd (strip s))"
proof -
  assume ne: "strip s \<noteq> []"
  from strip_is_take[of s] obtain n where n: "strip s = take n (dropWhile is_space s)" by blast
  with ne have "n > 0" "dropWhile is_space s \<noteq> []" by (auto intro: Nat.gr0I)
  then have "hd (strip s) = hd (dropWhile is_space s)" by (simp add: n hd_take)
  with \<open>dropWhile is_space s \<noteq> []\<close> show ?thesis by (simp add: hd_dropWhile)
qed

lemma split_ws_nonempty: "s \<noteq> [] \<Longrightarrow> \<not> is_space (hd s) \<Longrightarrow> split_ws s \<noteq> []"
  by (cases s) (auto split: list.splits)

lemma name_test:
  "(length l > 2 \<and> length l < 50 \<and> \<not> any_in name_stop_words (lower l) \<and> re_match name_re l \<noteq> None)
     \<longleftrightarrow> name_like l"
  unfolding name_like_def re_match_name_re by auto

lemma name_loop_find:
  "name_loop lines info =
     Inr (case find name_like (map strip lines) of None \<Rightarrow> info | Some l \<Rightarrow> named l info)"
proof (induction lines)
  case Nil
  then show ?case by simp
next
  case (Cons line rest)
  show ?case
  proof (cases "name_like (strip line)")
    case True
    then have "strip line \<noteq> []" by (auto simp: name_like_def)
    then have ne: "split_ws (strip line) \<noteq> []"
      using strip_hd[of line] by (simp add: split_ws_nonempty)
    then have len: "0 < length (split_ws (strip line))" by simp
    from True have t: "length (strip line) > 2 \<and> length (strip line) < 50 \<and>
        \<not> any_in name_stop_words (lower (strip line)) \<and> re_match name_re (strip line) \<noteq> None"
      unfolding name_test .
    show ?thesis
      using True ne len t
      by (simp add: Let_def bindE_def py_index_def py_last_def named_def hd_conv_nth)
  next
    case False
    then have t: "\<not> (length (strip line) > 2 \<and> length (strip line) < 50 \<and>
        \<not> any_in name_stop_words (lower (strip line)) \<and> re_match name_re (strip line) \<noteq> None)"
      unfolding name_test .
    show ?thesis
      using False t Cons.IH by (auto simp: Let_def)
  qed
qed


lemma keeps_names_refl: "keeps_names a a"
  by (simp add: keeps_names_def)

lemma keeps_names_trans: "keeps_names a b \<Longrightarrow> keeps_names b c \<Longrightarrow> keeps_names a c"
  by (simp add: keeps_names_def)

lemma keeps_names_update:
  assumes "k \<in> set (map fst a)" "k \<noteq> ''full_name''" "k \<noteq> ''first_name''" "k \<noteq> ''last_name''"
  shows "keeps_names a (AList.update k v a)"
  using assms by (simp add: keeps_names_def update_keys update_conv')

lemma keeps_names_update2:
  assumes "keeps_names a b" "k \<in> set (map fst a)" "k \<noteq> ''full_name''" "k \<noteq> ''first_name''"
    "k \<noteq> ''last_name''"
  shows "keeps_names a (AList.update k v b)"
proof -
  from assms(1,2) have "k \<in> set (map fst b)" by (simp add: keeps_names_def)
  from keeps_names_update[OF this assms(3-5)] assms(1) show ?thesis
    by (rule keeps_names_trans[rotated])
qed

lemma keeps_set_match:
  assumes "keeps_names a b" "k \<in> set (map fst a)" "k \<noteq> ''full_name''" "k \<noteq> ''first_name''"
    "k \<noteq> ''last_name''"
  shows "keeps_names a (set_match k m b)"
  using assms by (cases m) (simp_all add: set_match_def keeps_names_update2)

lemma keeps_phone_loop:
  assumes "keeps_names a b" "''phone'' \<in> set (map fst a)"
  shows "keeps_names a (phone_loop ps t b)"
  using assms by (induction ps) (simp_all add: keeps_names_update2 split: option.splits)

lemma keeps_address_loop:
  assumes "keeps_names a b" "''location'' \<in> set (map fst a)" "''address'' \<in> set (map fst a)"
  shows "keeps_names a (address_loop ls b)"
  using assms by (induction ls) (simp_all add: keeps_names_update2 Let_def)

lemma keeps_comma_loop:
  assumes "keeps_names a b" "''location'' \<in> set (map fst a)" "''address'' \<in> set (map fst a)"
  shows "keeps_names a (comma_loop ls b)"
  using assms by (induction ls) (simp_all add: keeps_names_update2)

lemma rmatch_Grp_group: "x \<in> set (rmatch (Grp n a) st) \<Longrightarrow> map_of (snd x) n \<noteq> None"
  by (cases st; cases "fst st") auto

lemma search_group_1:
  assumes "re_search (Grp 1 a) t = Some m"
  shows "group m 1 \<noteq> None"
proof -
  from search_from_Some[OF assms[unfolded re_search_def]] obtain rest x xs where
    "rmatch (Grp 1 a) ((char_before None (skipped m), rest), []) = x # xs" "groups m = snd x"
    by blast
  then have mem: "x \<in> set (rmatch (Grp 1 a) ((char_before None (skipped m), rest), []))"
    and gx: "groups m = snd x"
    by simp_all
  from rmatch_Grp_group[OF mem] have "map_of (snd x) 1 \<noteq> None" .
  then show ?thesis unfolding group_def gx .
qed

lemma keeps_set_portfolio:
  assumes "keeps_names a b" "''portfolio'' \<in> set (map fst a)"
  shows "\<exists>c. set_portfolio t b = Inr c \<and> keeps_names a c"
proof (cases "re_search portfolio_re t")
  case None
  with assms show ?thesis by (simp add: set_portfolio_def)
next
  case (Some m)
  then have "group m 1 \<noteq> None"
    unfolding portfolio_re_def by (rule search_group_1)
  then obtain g where g: "group m (Suc 0) = Some g" by auto
  show ?thesis
    using assms by (simp add: set_portfolio_def Some g Let_def keeps_names_update2)
qed


lemma named_keys: "map fst (named l empty_info) = map fst empty_info"
  by (simp add: named_def empty_info_def)

lemma personal_info_shape:
  "\<exists>info. extract_personal_info text = Inr info \<and>
     keeps_names (case spec_name_line text of None \<Rightarrow> empty_info | Some l \<Rightarrow> named l empty_info) info"
proof -
  define lines where "lines = split_lines text"
  define i0 where "i0 = (case spec_name_line text of None \<Rightarrow> empty_info | Some l \<Rightarrow> named l empty_info)"
  have n: "name_loop (take 10 lines) empty_info = Inr i0"
    by (simp add: name_loop_find i0_def spec_name_line_def lines_def take_map[symmetric])
  have k: "map fst i0 = map fst empty_info"
    by (simp add: i0_def named_keys split: option.splits)
  have keys: "''email'' \<in> set (map fst i0)" "''phone'' \<in> set (map fst i0)"
    "''linkedin'' \<in> set (map fst i0)" "''github'' \<in> set (map fst i0)"
    "''portfolio'' \<in> set (map fst i0)" "''location'' \<in> set (map fst i0)"
    "''address'' \<in> set (map fst i0)"
    unfolding k by (simp_all add: empty_info_def)
  define i1 where "i1 = set_match ''email'' (re_search email_re text) i0"
  define i2 where "i2 = phone_loop phone_patterns text i1"
  define i3 where "i3 = set_match ''linkedin'' (re_search linkedin_re text) i2"
  define i4 where "i4 = set_match ''github'' (re_search github_re text) i3"
  have k1: "keeps_names i0 i1"
    unfolding i1_def by (rule keeps_set_match[OF keeps_names_refl keys(1)]) simp_all
  have k2: "keeps_names i0 i2"
    unfolding i2_def by (rule keeps_phone_loop[OF k1 keys(2)])
  have k3: "keeps_names i0 i3"
    unfolding i3_def by (rule keeps_set_match[OF k2 keys(3)]) simp_all
  have k4: "keeps_names i0 i4"
    unfolding i4_def by (rule keeps_set_match[OF k3 keys(4)]) simp_all
  from keeps_set_portfolio[OF k4 keys(5)] obtain i5 where
    p: "set_portfolio text i4 = Inr i5" and k5: "keeps_names i0 i5"
    by blast
  define i6 where "i6 = address_loop (take 12 lines) i5"
  have k6: "keeps_names i0 i6"
    unfolding i6_def by (rule keeps_address_loop[OF k5 keys(6,7)])
  have "''location'' \<in> set (map fst i6)"
    using k6 keys(6) by (simp add: keeps_names_def)
  then obtain loc where loc: "map_of i6 ''location'' = Some loc"
    by (metis map_of_eq_None_iff not_None_eq set_map)
  define i7 where "i7 = (if loc = [] then comma_loop (take 8 lines) i6 else i6)"
  have k7: "keeps_names i0 i7"
    unfolding i7_def using keeps_comma_loop[OF k6 keys(6,7)] k6 by simp
  have "extract_personal_info text = Inr i7"
    unfolding extract_personal_info_def
    by (simp add: Let_def lines_def[symmetric] n bindE_def i1_def[symmetric] i2_def[symmetric]
        i3_def[symmetric] i4_def[symmetric] p i6_def[symmetric] py_getitem_def loc i7_def)
  with k7 show ?thesis unfolding i0_def by blast
qed


lemma spec_name_line_words:
  assumes "spec_name_line text = Some l"
  shows "name_like l" "split_ws l \<noteq> []"
proof -
  from assms obtain i where i: "i < length (map strip (take 10 (split_lines text)))"
    "name_like (map strip (take 10 (split_lines text)) ! i)"
    "l = map strip (take 10 (split_lines text)) ! i"
    unfolding spec_name_line_def find_Some_iff by blast
  then show "name_like l" by simp
  from i obtain line where l: "l = strip line" by auto
  from \<open>name_like l\<close> have "l \<noteq> []" by (auto simp: name_like_def)
  then show "split_ws l \<noteq> []"
    unfolding l using strip_hd[of line] by (simp add: split_ws_nonempty)
qed

text \<open>
  Claim C8, as amended. In \<open>extract_personal_info\<close> the full name is the first of the first
  ten lines whose trimmed length is more than 2 and less than 50 characters, that contains
  none of the excluded words in any case, and that consists only of the letters \<open>A\<close> to \<open>Z\<close>
  and \<open>a\<close> to \<open>z\<close>, white space, periods and hyphens. The trimmed line is split at white space: the first word is the
  first name, and the last word is the last name, which stays empty when there is one word
  only. When no line among the first ten qualifies, the three name fields stay empty.
\<close>

theorem C8_name_fields:
  "\<exists>info. extract_personal_info text = Inr info \<and>
     (case spec_name_line text of
        None \<Rightarrow>
          map_of info ''full_name'' = Some [] \<and> map_of info ''first_name'' = Some [] \<and>
          map_of info ''last_name'' = Some []
      | Some l \<Rightarrow>
          name_like l \<and> split_ws l \<noteq> [] \<and>
          map_of info ''full_name'' = Some l \<and>
          map_of info ''first_name'' = Some (hd (split_ws l)) \<and>
          map_of info ''last_name'' =
            Some (if length (split_ws l) > 1 then last (split_ws l) else []))"
proof -
  from personal_info_shape[of "text"] obtain info where
    e: "extract_personal_info text = Inr info"
    and k: "keeps_names (case spec_name_line text of None \<Rightarrow> empty_info
                         | Some l \<Rightarrow> named l empty_info) info"
    by blast
  show ?thesis
  proof (cases "spec_name_line text")
    case None
    with k have "map_of info ''full_name'' = Some [] \<and> map_of info ''first_name'' = Some [] \<and>
          map_of info ''last_name'' = Some []"
      by (simp add: keeps_names_def empty_info_def)
    with e None show ?thesis by simp
  next
    case (Some l)
    with k have "map_of info ''full_name'' = Some l \<and>
          map_of info ''first_name'' = Some (hd (split_ws l)) \<and>
          map_of info ''last_name'' =
            Some (if length (split_ws l) > 1 then last (split_ws l) else [])"
      by (simp add: keeps_names_def named_def empty_info_def update_conv')
    with e Some spec_name_line_words[OF Some] show ?thesis by simp
  qed
qed

text \<open>An instance: a title line that is passed over for its excluded word, then the name;
  and a name whose two words are held together by the no-break space U+00A0, which is
  white space.\<close>

theorem C8_name_fields_witness:
  "spec_name_line (''Curriculum Vitae'' @ [CHR 0x0A] @ ''  Jane Q. Doe '' @ [CHR 0x0A] @
      ''jane.doe@example.com'') = Some ''Jane Q. Doe'' \<and>
   (\<exists>info. extract_personal_info (''Curriculum Vitae'' @ [CHR 0x0A] @ ''  Jane Q. Doe '' @
        [CHR 0x0A] @ ''jane.doe@example.com'') = Inr info \<and>
      map_of info ''full_name'' = Some ''Jane Q. Doe'' \<and>
      map_of info ''first_name'' = Some ''Jane'' \<and>
      map_of info ''last_name'' = Some ''Doe'') \<and>
   bindE (extract_personal_info (''Jane'' @ [CHR 0xA0] @ ''Doe''))
     (\<lambda>info. Inr (map_of info ''full_name'', map_of info ''first_name'', map_of info ''last_name'')) =
     Inr (Some (''Jane'' @ [CHR 0xA0] @ ''Doe''), Some ''Jane'', Some ''Doe'')"
proof -
  have n: "bindE (extract_personal_info (''Jane'' @ [CHR 0xA0] @ ''Doe''))
     (\<lambda>info. Inr (map_of info ''full_name'', map_of info ''first_name'', map_of info ''last_name'')) =
     Inr (Some (''Jane'' @ [CHR 0xA0] @ ''Doe''), Some ''Jane'', Some ''Doe'')"
    by code_simp
  have s: "spec_name_line (''Curriculum Vitae'' @ [CHR 0x0A] @ ''  Jane Q. Doe '' @ [CHR 0x0A] @
      ''jane.doe@example.com'') = Some ''Jane Q. Doe''"
    by code_simp
  have w: "hd (split_ws ''Jane Q. Doe'') = ''Jane''"
    "(if length (split_ws ''Jane Q. Doe'') > 1 then last (split_ws ''Jane Q. Doe'') else []) = ''Doe''"
    by code_simp+
  from C8_name_fields[of "''Curriculum Vitae'' @ [CHR 0x0A] @ ''  Jane Q. Doe '' @ [CHR 0x0A] @
      ''jane.doe@example.com''"]
  have "\<exists>info. extract_personal_info (''Curriculum Vitae'' @ [CHR 0x0A] @ ''  Jane Q. Doe '' @
        [CHR 0x0A] @ ''jane.doe@example.com'') = Inr info \<and>
      map_of info ''full_name'' = Some ''Jane Q. Doe'' \<and>
      map_of info ''first_name'' = Some ''Jane'' \<and>
      map_of info ''last_name'' = Some ''Doe''"
    unfolding s using w by auto
  with s n show ?thesis by blast
qed

text \<open>Claim C8 as stated accepts a line of 2 and a line of 50 characters. The code asks for
  more than 2 and fewer than 50: the text \<open>Al\<close>, two letters, leaves the full name empty,
  and so does a line of 50 letters.\<close>

theorem C8_length_bounds_counterexample:
  "length ''Al'' = 2 \<and> list_all name_char ''Al'' \<and> \<not> any_in name_stop_words (lower ''Al'') \<and>
   bindE (extract_personal_info ''Al'') (\<lambda>info. Inr (map_of info ''full_name'')) = Inr (Some []) \<and>
   length (replicate 50 (CHR ''a'')) = 50 \<and> list_all name_char (replicate 50 (CHR ''a'')) \<and>
   \<not> any_in name_stop_words (lower (replicate 50 (CHR ''a''))) \<and>
   bindE (extract_personal_info (replicate 50 (CHR ''a''))) (\<lambda>info. Inr (map_of info ''full_name'')) =
     Inr (Some [])"
  by code_simp

section \<open>What the extractors return\<close>

lemma caps_Lit: "x \<in> set (rmatch (Lit k) (q, g)) \<Longrightarrow> snd x = g"
  by (cases q) (auto simp: rmatch_Lit split: if_splits)

lemma caps_Rep_last: "x \<in> set (rmatch (Seq (Rep P lo hi) Eps) (q, g)) \<Longrightarrow> snd x = g"
  by auto

lemma caps_century:
  assumes "x \<in> set (rmatch (Grp 1 (Alt (Lit ''19'') (Lit ''20''))) ((p, s), []))"
  shows "snd x = [(1, ''19'')] \<or> snd x = [(1, ''20'')]"
proof -
  have t: "prefix ''19'' s \<Longrightarrow> take 2 s = ''19''" "prefix ''20'' s \<Longrightarrow> take 2 s = ''20''"
    by (auto simp: prefix_def)
  have l: "prefix ''19'' s \<or> prefix ''20'' s \<Longrightarrow> length s - length (drop 2 s) = 2"
    by (auto simp: prefix_def)
  show ?thesis
    using assms t l
    by (auto simp: rmatch_Lit simp del: Lit.simps split: if_splits)
qed

lemma rmatch_year_or_now_groups:
  assumes "x \<in> set (rmatch year_or_now_re ((p, s), []))"
  shows "snd x = [] \<or> snd x = [(1, ''19'')] \<or> snd x = [(1, ''20'')]"
proof -
  from assms consider
    (year) y where "y \<in> set (rmatch (Grp 1 (Alt (Lit ''19'') (Lit ''20''))) ((p, s), []))"
      "x \<in> set (rmatch (Seq (Rep is_digit 2 (Some 2)) Eps) y)"
    | (present) "x \<in> set (rmatch (Lit ''Present'') ((p, s), []))"
    | (current) "x \<in> set (rmatch (Lit ''Current'') ((p, s), []))"
    by (auto simp: year_or_now_re_def Seqs_def simp del: Lit.simps rmatch.simps(5,7))
  then show ?thesis
  proof cases
    case year
    from caps_Rep_last[of x is_digit 2 "Some 2" "fst y" "snd y"] year(2)
    have "snd x = snd y" by simp
    with caps_century[OF year(1)] show ?thesis by simp
  next
    case present
    then show ?thesis by (simp add: caps_Lit del: Lit.simps)
  next
    case current
    then show ?thesis by (simp add: caps_Lit del: Lit.simps)
  qed
qed


lemma finditer_groups:
  "m \<in> set (fst (finditer_from r p s)) \<Longrightarrow>
   \<exists>p' rest x. x \<in> set (rmatch r ((p', rest), [])) \<and> groups m = snd x"
proof (induction r p s rule: finditer_from.induct)
  case (1 r p s)
  show ?case
  proof (cases "search_from r p s")
    case None
    with 1(2) show ?thesis by (subst (asm) finditer_from.simps) simp
  next
    case (Some m0)
    from search_from_Some[OF Some] obtain rest x xs where
      h: "rmatch r ((char_before p (skipped m0), rest), []) = x # xs" "groups m0 = snd x"
      by blast
    then have first: "\<exists>p' rest x. x \<in> set (rmatch r ((p', rest), [])) \<and> groups m0 = snd x"
      by (metis list.set_intros(1))
    show ?thesis
    proof (cases "length (snd (m_end m0)) < length s")
      case True
      from 1(2) have "m = m0 \<or> m \<in> set (fst (finditer_from r (fst (m_end m0)) (snd (m_end m0))))"
        by (subst (asm) finditer_from.simps) (simp add: Some True split: prod.splits)
      then show ?thesis
        using first 1(1)[OF Some True] by blast
    next
      case False
      from 1(2) have "m = m0"
        by (subst (asm) finditer_from.simps) (simp add: Some False)
      then show ?thesis using first by simp
    qed
  qed
qed

lemma findall_year_or_now:
  assumes "d \<in> set (re_findall1 year_or_now_re s)"
  shows "d = [] \<or> d = ''19'' \<or> d = ''20''"
proof -
  from assms obtain m where m: "m \<in> set (fst (finditer_from year_or_now_re None s))"
    and d: "d = (case group m 1 of None \<Rightarrow> [] | Some t \<Rightarrow> t)"
    by (auto simp: re_findall1_def)
  from finditer_groups[OF m] obtain p' rest x where
    "x \<in> set (rmatch year_or_now_re ((p', rest), []))" "groups m = snd x"
    by blast
  with rmatch_year_or_now_groups[of x p' rest]
  have "groups m = [] \<or> groups m = [(1, ''19'')] \<or> groups m = [(1, ''20'')]" by simp
  then show ?thesis
    unfolding d group_def by auto
qed


lemma job_ok_new: "job_ok (new_job c t)"
  by (simp add: job_ok_def new_job_def job_keys_def holds_list_def)

lemma job_ok_nonempty: "job_ok job \<Longrightarrow> job \<noteq> []"
  by (auto simp: job_ok_def job_keys_def)

lemma job_ok_update_str:
  assumes "job_ok job" "k \<in> {''company_name'', ''job_title'', ''start_date'', ''duration''}"
  shows "job_ok (AList.update k (PStr v) job)"
  using assms by (auto simp: job_ok_def update_keys update_conv' job_keys_def holds_list_def)

lemma job_ok_update_end:
  assumes "job_ok job" "v \<noteq> ''Present''"
  shows "job_ok (AList.update ''end_date'' (PStr v) job)"
  using assms by (auto simp: job_ok_def update_keys update_conv' job_keys_def holds_list_def)

lemma job_ok_update_resp:
  assumes "job_ok job"
  shows "job_ok (AList.update ''responsibilities'' (PList xs) job)"
  using assms by (auto simp: job_ok_def update_keys update_conv' job_keys_def holds_list_def)

lemma split_title_cases:
  "split_title line = Inr [] \<or> (\<exists>c t. split_title line = Inr (new_job c t))"
  by (auto simp: split_title_def py_index_def bindE_def Let_def)

lemma set_dates_empty: "set_dates line [] = Inr []"
  by (simp add: set_dates_def split: option.splits)

lemma end_date_not_present:
  assumes "d \<in> set (re_findall1 year_or_now_re s)"
  shows "(if d \<notin> set [''Present'', ''Current''] then d @ ''-01'' else ''Present'') \<noteq> ''Present''"
  using findall_year_or_now[OF assms] by auto

lemma set_dates_ok:
  assumes "job_ok job"
  shows "\<exists>job'. set_dates line job = Inr job' \<and> job_ok job'"
proof (cases "re_search date_re line")
  case None
  with assms show ?thesis by (simp add: set_dates_def)
next
  case (Some m)
  define dates where "dates = re_findall1 year_or_now_re (matched m)"
  define job1 where "job1 = (if length dates \<ge> 1
      then AList.update ''start_date''
             (PStr (if dates ! 0 \<notin> set [''Present'', ''Current''] then dates ! 0 @ ''-01'' else [])) job
      else job)"
  define job2 where "job2 = (if length dates \<ge> 2
      then AList.update ''end_date''
             (PStr (if dates ! 1 \<notin> set [''Present'', ''Current''] then dates ! 1 @ ''-01'' else ''Present'')) job1
      else job1)"
  have ok1: "job_ok job1"
    unfolding job1_def using assms by (simp add: job_ok_update_str)
  have ok2: "job_ok job2"
  proof (cases "length dates \<ge> 2")
    case True
    then have "dates ! 1 \<in> set (re_findall1 year_or_now_re (matched m))"
      unfolding dates_def by simp
    from end_date_not_present[OF this] ok1 True show ?thesis
      unfolding job2_def by (simp add: job_ok_update_end)
  next
    case False
    with ok1 show ?thesis unfolding job2_def by simp
  qed
  have "set_dates line job = Inr (AList.update ''duration'' (PStr (matched m)) job2)"
    using job_ok_nonempty[OF assms]
    by (simp add: set_dates_def Some Let_def dates_def[symmetric] py_index_def bindE_def
        job1_def job2_def)
  with ok2 show ?thesis by (simp add: job_ok_update_str)
qed

lemma open_job_ok: "\<exists>job. open_job line = Inr job \<and> (job = [] \<or> job_ok job)"
proof -
  from split_title_cases[of line] show ?thesis
  proof
    assume "split_title line = Inr []"
    then show ?thesis by (simp add: open_job_def bindE_def set_dates_empty)
  next
    assume "\<exists>c t. split_title line = Inr (new_job c t)"
    then obtain c t where st: "split_title line = Inr (new_job c t)" by blast
    from set_dates_ok[OF job_ok_new, of line c t] show ?thesis
      by (auto simp: open_job_def bindE_def st)
  qed
qed

lemma add_responsibility_ok:
  assumes "job_ok job"
  shows "\<exists>job'. add_responsibility line job = Inr job' \<and> job_ok job'"
proof -
  from assms obtain xs where xs: "map_of job ''responsibilities'' = Some (PList xs)"
    by (auto simp: job_ok_def holds_list_def split: option.splits pyval.splits)
  show ?thesis
    using assms
    by (simp add: add_responsibility_def append_responsibility_def xs Let_def job_ok_update_resp)
qed


lemma work_loop_ok:
  assumes "cur = [] \<or> job_ok cur" "list_all job_ok exp"
  shows "\<exists>cur' exp'. work_loop lines b cur exp = Inr (cur', exp') \<and>
           (cur' = [] \<or> job_ok cur') \<and> list_all job_ok exp'"
  using assms
proof (induction lines arbitrary: b cur exp)
  case Nil
  then show ?case by simp
next
  case (Cons line rest)
  note inv = Cons.prems
  show ?case
  proof (cases "strip line = []")
    case True
    then show ?thesis using Cons.IH[OF inv, of b] by simp
  next
    case nonblank: False
    show ?thesis
    proof (cases "any_in experience_headers (lower (strip line))")
      case True
      then show ?thesis using nonblank Cons.IH[OF inv, of True] by simp
    next
      case noheader: False
      show ?thesis
      proof (cases b)
        case False
        then show ?thesis using nonblank noheader Cons.IH[OF inv, of False] by simp
      next
        case inside: True
        show ?thesis
        proof (cases "any_in experience_stops (lower (strip line))")
          case True
          then show ?thesis using nonblank noheader inside inv by simp
        next
          case nostop: False
          show ?thesis
          proof (cases "cur = []")
            case empty: True
            show ?thesis
            proof (cases "length (strip line) > 5")
              case True
              from open_job_ok[of "strip line"] obtain job where
                job: "open_job (strip line) = Inr job" "job = [] \<or> job_ok job"
                by blast
              from Cons.IH[OF job(2) inv(2), of True] show ?thesis
                using nonblank noheader inside nostop empty True job(1)
                by (simp add: bindE_def)
            next
              case False
              then show ?thesis
                using nonblank noheader inside nostop empty Cons.IH[OF inv, of True]
                by simp
            qed
          next
            case open_entry: False
            with inv(1) have ok: "job_ok cur" by simp
            from add_responsibility_ok[OF ok, of "strip line"] obtain job where
              job: "add_responsibility (strip line) cur = Inr job" "job_ok job"
              by blast
            have a: "\<exists>cur' exp'. work_loop rest True [] (exp @ [job]) = Inr (cur', exp') \<and>
                (cur' = [] \<or> job_ok cur') \<and> list_all job_ok exp'"
              using Cons.IH[of "[]" "exp @ [job]" True] inv(2) job(2) by simp
            have c: "\<exists>cur' exp'. work_loop rest True job exp = Inr (cur', exp') \<and>
                (cur' = [] \<or> job_ok cur') \<and> list_all job_ok exp'"
              using Cons.IH[of job exp True] inv(2) job(2) by simp
            show ?thesis
              using nonblank noheader inside nostop open_entry job(1) a c
              by (simp add: bindE_def)
          qed
        qed
      qed
    qed
  qed
qed

lemma extract_work_experience_ok:
  "\<exists>jobs. extract_work_experience text = Inr jobs \<and> list_all job_ok jobs"
proof -
  from work_loop_ok[of "[]" "[]" "split_lines text" False] obtain cur exp where
    "work_loop (split_lines text) False [] [] = Inr (cur, exp)" "cur = [] \<or> job_ok cur"
    "list_all job_ok exp"
    by auto
  then show ?thesis
    by (auto simp: extract_work_experience_def bindE_def)
qed


lemma open_education_keys: "map fst (open_education line) = education_keys"
  by (simp add: open_education_def education_keys_def Let_def update_keys split: option.splits)

lemma education_keys_nonempty: "map fst e = education_keys \<Longrightarrow> e \<noteq> []"
  by (auto simp: education_keys_def)

lemma fill_school_ok:
  assumes "map fst e = education_keys"
  shows "\<exists>e'. fill_school line e = Inr e' \<and> map fst e' = education_keys"
proof -
  have "''school_name'' \<in> set (map fst e)" by (simp add: assms education_keys_def)
  then obtain v where v: "map_of e ''school_name'' = Some v"
    by (metis map_of_eq_None_iff not_None_eq set_map)
  show ?thesis
    using assms
    by (simp add: fill_school_def py_getitem_def v bindE_def update_keys education_keys_def)
qed

lemma education_loop_ok:
  assumes "cur = [] \<or> map fst cur = education_keys" "list_all (\<lambda>e. map fst e = education_keys) edus"
  shows "\<exists>cur' edus'. education_loop lines b cur edus = Inr (cur', edus') \<and>
           (cur' = [] \<or> map fst cur' = education_keys) \<and>
           list_all (\<lambda>e. map fst e = education_keys) edus'"
  using assms
proof (induction lines arbitrary: b cur edus)
  case Nil
  then show ?case by simp
next
  case (Cons line rest)
  note inv = Cons.prems
  show ?case
  proof (cases "strip line = []")
    case True
    then show ?thesis using Cons.IH[OF inv, of b] by simp
  next
    case nonblank: False
    show ?thesis
    proof (cases "any_in education_headers (lower (strip line))")
      case True
      then show ?thesis using nonblank Cons.IH[OF inv, of True] by simp
    next
      case noheader: False
      show ?thesis
      proof (cases b)
        case False
        then show ?thesis using nonblank noheader Cons.IH[OF inv, of False] by simp
      next
        case inside: True
        show ?thesis
        proof (cases "any_in education_stops (lower (strip line))")
          case True
          then show ?thesis using nonblank noheader inside inv by simp
        next
          case nostop: False
          show ?thesis
          proof (cases "cur = []")
            case empty: True
            have o: "\<exists>cur' edus'. education_loop rest True (open_education (strip line)) edus =
                  Inr (cur', edus') \<and> (cur' = [] \<or> map fst cur' = education_keys) \<and>
                  list_all (\<lambda>e. map fst e = education_keys) edus'"
              using Cons.IH[of "open_education (strip line)" edus True] inv(2)
              by (simp add: open_education_keys)
            show ?thesis
              using nonblank noheader inside nostop empty o Cons.IH[OF inv, of True]
              by (auto simp: Let_def)
          next
            case open_entry: False
            with inv(1) have ok: "map fst cur = education_keys" by simp
            from fill_school_ok[OF ok, of "strip line"] obtain e where
              e: "fill_school (strip line) cur = Inr e" "map fst e = education_keys"
              by blast
            have a: "\<exists>cur' edus'. education_loop rest True [] (edus @ [e]) = Inr (cur', edus') \<and>
                (cur' = [] \<or> map fst cur' = education_keys) \<and>
                list_all (\<lambda>e. map fst e = education_keys) edus'"
              using Cons.IH[of "[]" "edus @ [e]" True] inv(2) e(2) by simp
            have c: "\<exists>cur' edus'. education_loop rest True e edus = Inr (cur', edus') \<and>
                (cur' = [] \<or> map fst cur' = education_keys) \<and>
                list_all (\<lambda>e. map fst e = education_keys) edus'"
              using Cons.IH[of e edus True] inv(2) e(2) by simp
            show ?thesis
              using nonblank noheader inside nostop open_entry e(1) a c
              by (simp add: bindE_def)
          qed
        qed
      qed
    qed
  qed
qed

lemma extract_education_ok:
  "\<exists>edus. extract_education text = Inr edus \<and> list_all (\<lambda>e. map fst e = education_keys) edus"
proof -
  from education_loop_ok[of "[]" "[]" "split_lines text" False] obtain cur edus where
    "education_loop (split_lines text) False [] [] = Inr (cur, edus)"
    "cur = [] \<or> map fst cur = education_keys"
    "list_all (\<lambda>e. map fst e = education_keys) edus"
    by auto
  then show ?thesis
    by (auto simp: extract_education_def bindE_def)
qed

lemma project_ok_new:
  "project_ok [(''title'', PStr t), (''description'', PStr []), (''technologies'', PList []),
              (''role'', PStr []), (''duration'', PStr [])]"
  by (simp add: project_ok_def project_keys_def holds_str_def holds_list_def)

lemma describe_project_ok:
  assumes "project_ok p"
  shows "\<exists>p'. describe_project line p = Inr p' \<and> project_ok p'"
proof -
  from assms obtain d ts where d: "map_of p ''description'' = Some (PStr d)"
    and ts: "map_of p ''technologies'' = Some (PList ts)"
    by (auto simp: project_ok_def holds_str_def holds_list_def split: option.splits pyval.splits)
  have u1: "project_ok (AList.update ''description'' (PStr v) p)" for v
    using assms
    by (auto simp: project_ok_def update_keys update_conv' project_keys_def holds_str_def holds_list_def)
  have u2: "project_ok (AList.update ''technologies'' (PList v) p)" for v
    using assms
    by (auto simp: project_ok_def update_keys update_conv' project_keys_def holds_str_def holds_list_def)
  show ?thesis
    using assms u1 u2
    by (simp add: describe_project_def py_getitem_def d ts bindE_def truthy_def Let_def)
qed

lemma projects_loop_ok:
  assumes "cur = [] \<or> project_ok cur" "list_all project_ok ps"
  shows "\<exists>cur' ps'. projects_loop lines b cur ps = Inr (cur', ps') \<and>
           (cur' = [] \<or> project_ok cur') \<and> list_all project_ok ps'"
  using assms
proof (induction lines arbitrary: b cur ps)
  case Nil
  then show ?case by simp
next
  case (Cons line rest)
  note inv = Cons.prems
  show ?case
  proof (cases "strip line = []")
    case True
    then show ?thesis using Cons.IH[OF inv, of b] by simp
  next
    case nonblank: False
    show ?thesis
    proof (cases "any_in project_headers (lower (strip line))")
      case True
      then show ?thesis using nonblank Cons.IH[OF inv, of True] by simp
    next
      case noheader: False
      show ?thesis
      proof (cases b)
        case False
        then show ?thesis using nonblank noheader Cons.IH[OF inv, of False] by simp
      next
        case inside: True
        show ?thesis
        proof (cases "any_in project_stops (lower (strip line))")
          case True
          then show ?thesis using nonblank noheader inside inv by simp
        next
          case nostop: False
          show ?thesis
          proof (cases "cur = []")
            case empty: True
            have o: "\<exists>cur' ps'. projects_loop rest True
                    [(''title'', PStr (strip line)), (''description'', PStr []),
                     (''technologies'', PList []), (''role'', PStr []), (''duration'', PStr [])] ps =
                  Inr (cur', ps') \<and> (cur' = [] \<or> project_ok cur') \<and> list_all project_ok ps'"
              using Cons.IH[of "[(''title'', PStr (strip line)), (''description'', PStr []),
                     (''technologies'', PList []), (''role'', PStr []), (''duration'', PStr [])]" ps True]
                inv(2) project_ok_new by simp
            show ?thesis
              using nonblank noheader inside nostop empty o Cons.IH[OF inv, of True]
              by (auto simp: Let_def)
          next
            case open_entry: False
            with inv(1) have ok: "project_ok cur" by simp
            from describe_project_ok[OF ok, of "strip line"] obtain p where
              p: "describe_project (strip line) cur = Inr p" "project_ok p"
              by blast
            have a: "\<exists>cur' ps'. projects_loop rest True [] (ps @ [p]) = Inr (cur', ps') \<and>
                (cur' = [] \<or> project_ok cur') \<and> list_all project_ok ps'"
              using Cons.IH[of "[]" "ps @ [p]" True] inv(2) p(2) by simp
            have c: "\<exists>cur' ps'. projects_loop rest True p ps = Inr (cur', ps') \<and>
                (cur' = [] \<or> project_ok cur') \<and> list_all project_ok ps'"
              using Cons.IH[of p ps True] inv(2) p(2) by simp
            show ?thesis
              using nonblank noheader inside nostop open_entry p(1) a c
              by (simp add: bindE_def)
          qed
        qed
      qed
    qed
  qed
qed

lemma extract_projects_ok:
  "\<exists>ps. extract_projects text = Inr ps \<and> list_all project_ok ps"
proof -
  from projects_loop_ok[of "[]" "[]" "split_lines text" False] obtain cur ps where
    "projects_loop (split_lines text) False [] [] = Inr (cur, ps)" "cur = [] \<or> project_ok cur"
    "list_all project_ok ps"
    by auto
  then show ?thesis
    by (auto simp: extract_projects_def bindE_def)
qed

lemma append_item_ok:
  assumes "map fst info = additional_keys" "k \<in> set additional_keys"
  shows "\<exists>info'. append_item info k item = Inr info' \<and> map fst info' = additional_keys"
proof -
  from assms have "k \<in> set (map fst info)" by simp
  then obtain v where v: "map_of info k = Some v"
    by (metis map_of_eq_None_iff not_None_eq set_map)
  show ?thesis
    using assms by (simp add: append_item_def py_getitem_def v bindE_def update_keys)
qed

lemma additional_loop_ok:
  assumes "map fst info = additional_keys"
  shows "\<exists>info'. additional_loop lines sec info = Inr info' \<and> map fst info' = additional_keys"
  using assms
proof (induction lines arbitrary: sec info)
  case Nil
  then show ?case by simp
next
  case (Cons line rest)
  have step: "\<exists>info'. bindE (append_item info k (strip line)) (additional_loop rest s') = Inr info' \<and>
      map fst info' = additional_keys" if "k \<in> set additional_keys" for k s'
  proof -
    from append_item_ok[OF Cons.prems that, of "strip line"] obtain i where
      i: "append_item info k (strip line) = Inr i" "map fst i = additional_keys"
      by blast
    from Cons.IH[OF i(2), of s'] show ?thesis by (simp add: bindE_def i(1))
  qed
  have k: "''certifications'' \<in> set additional_keys" "''languages'' \<in> set additional_keys"
    "''awards'' \<in> set additional_keys"
    by (simp_all add: additional_keys_def)
  show ?case
    using Cons.IH[OF Cons.prems] step[OF k(1)] step[OF k(2)] step[OF k(3)]
    by (auto simp: Let_def)
qed

lemma extract_additional_info_ok:
  "\<exists>info. extract_additional_info text = Inr info \<and> map fst info = additional_keys"
  unfolding extract_additional_info_def
  by (rule additional_loop_ok) (simp add: additional_keys_def)


lemma job_ok_keys: "list_all job_ok jobs \<Longrightarrow> list_all (\<lambda>job. map fst job = job_keys) jobs"
  by (induction jobs) (simp_all add: job_ok_def)

lemma project_ok_keys:
  "list_all project_ok ps \<Longrightarrow> list_all (\<lambda>p. map fst p = project_keys) ps"
  by (induction ps) (simp_all add: project_ok_def)

lemma extract_personal_info_ok:
  "\<exists>info. extract_personal_info text = Inr info \<and> map fst info = personal_info_keys"
proof -
  from personal_info_shape[of "text"] obtain info where
    e: "extract_personal_info text = Inr info"
    and k: "keeps_names (case spec_name_line text of None \<Rightarrow> empty_info
                         | Some l \<Rightarrow> named l empty_info) info"
    by blast
  from k have "map fst info = map fst empty_info"
    by (simp add: keeps_names_def named_keys split: option.splits)
  with e show ?thesis by (simp add: empty_info_def personal_info_keys_def)
qed

lemma extract_skills_ok:
  "\<exists>skills. extract_skills list_of_set text = Inr skills \<and> map fst skills = skill_keys"
  by (simp add: extract_skills_shape skill_categories_def skill_keys_def)

lemma structured_data_total:
  "\<exists>info jobs edus skills ps add cs ls aw.
     extract_personal_info text = Inr info \<and> map fst info = personal_info_keys \<and>
     extract_work_experience text = Inr jobs \<and> list_all job_ok jobs \<and>
     extract_education text = Inr edus \<and> list_all (\<lambda>e. map fst e = education_keys) edus \<and>
     extract_skills list_of_set text = Inr skills \<and> map fst skills = skill_keys \<and>
     extract_projects text = Inr ps \<and> list_all project_ok ps \<and>
     extract_additional_info text = Inr add \<and> map fst add = additional_keys \<and>
     map_of add ''certifications'' = Some cs \<and> map_of add ''languages'' = Some ls \<and>
     map_of add ''awards'' = Some aw \<and>
     (\<forall>now. structured_data list_of_set now text =
        Inr \<lparr>sd_personal_info = info, sd_summary = extract_summary text,
             sd_work_experience = jobs, sd_education = edus, sd_skills = skills,
             sd_projects = ps, sd_certifications = cs, sd_languages = ls, sd_awards = aw,
             sd_total_experience = calculate_total_experience now jobs,
             sd_experience_level = calculate_experience_level now jobs text,
             sd_additional_info =
               ''Analyzed on '' @ strftime_Ymd now @ ''. Text length: '' @
               py_str (int (length text)) @ '' characters.''\<rparr>)"
proof -
  from extract_personal_info_ok[of "text"] obtain info where
    i: "extract_personal_info text = Inr info" "map fst info = personal_info_keys" by blast
  from extract_work_experience_ok[of "text"] obtain jobs where
    j: "extract_work_experience text = Inr jobs" "list_all job_ok jobs" by blast
  from extract_education_ok[of "text"] obtain edus where
    e: "extract_education text = Inr edus" "list_all (\<lambda>e. map fst e = education_keys) edus" by blast
  from extract_skills_ok[of list_of_set "text"] obtain skills where
    s: "extract_skills list_of_set text = Inr skills" "map fst skills = skill_keys" by blast
  from extract_projects_ok[of "text"] obtain ps where
    p: "extract_projects text = Inr ps" "list_all project_ok ps" by blast
  from extract_additional_info_ok[of "text"] obtain add where
    a: "extract_additional_info text = Inr add" "map fst add = additional_keys" by blast
  have "k \<in> set additional_keys \<Longrightarrow> \<exists>v. map_of add k = Some v" for k
    using a(2) by (metis map_of_eq_None_iff not_None_eq set_map)
  then obtain cs ls aw where g: "map_of add ''certifications'' = Some cs"
    "map_of add ''languages'' = Some ls" "map_of add ''awards'' = Some aw"
    unfolding additional_keys_def by fastforce
  have "structured_data list_of_set now text =
        Inr \<lparr>sd_personal_info = info, sd_summary = extract_summary text,
             sd_work_experience = jobs, sd_education = edus, sd_skills = skills,
             sd_projects = ps, sd_certifications = cs, sd_languages = ls, sd_awards = aw,
             sd_total_experience = calculate_total_experience now jobs,
             sd_experience_level = calculate_experience_level now jobs text,
             sd_additional_info =
               ''Analyzed on '' @ strftime_Ymd now @ ''. Text length: '' @
               py_str (int (length text)) @ '' characters.''\<rparr>" for now
    by (simp add: structured_data_def i(1) j(1) e(1) s(1) p(1) a(1) g bindE_def py_getitem_def Let_def)
  with i j e s p a g show ?thesis by blast
qed


lemma keyword_found_empty: "k \<noteq> [] \<Longrightarrow> \<not> keyword_found [] k"
  by (simp add: keyword_found_iff)

lemma no_keyword_in_empty:
  assumes "(c, ks) \<in> set skill_categories"
  shows "filter (keyword_found []) ks = []"
proof -
  from keywords_nonempty assms have "\<forall>k \<in> set ks. k \<noteq> []" by (auto simp: list_all_iff)
  then show ?thesis by (auto simp: filter_empty_conv keyword_found_empty)
qed

lemma extract_skills_empty:
  assumes "lists_each_once list_of_set"
  shows "extract_skills list_of_set [] = Inr (map (\<lambda>k. (k, [])) skill_keys)"
proof -
  from assms have e: "list_of_set [] = []"
    by (metis lists_each_once_def set_empty)
  have "map (\<lambda>(c, ks). (c, list_of_set (map title (filter (keyword_found []) ks)))) skill_categories =
        map (\<lambda>(c, ks). (c, [])) skill_categories"
    by (rule map_cong) (auto simp: no_keyword_in_empty e)
  then show ?thesis
    by (simp add: extract_skills_shape lower_def) (simp add: skill_categories_def skill_keys_def)
qed

text \<open>
  Claim C2. For every text, the empty one included, each extractor returns a value and
  raises nothing, and the value has all its keys: \<open>extract_personal_info\<close> its ten keys,
  \<open>extract_skills\<close> its six categories, \<open>extract_additional_info\<close> its three lists, and every
  entry of \<open>extract_work_experience\<close>, \<open>extract_education\<close> and \<open>extract_projects\<close> the keys of
  its kind; the profile is assembled from them without a failing lookup. \<open>extract_summary\<close>
  has no operation that can raise and is a function to strings. On the empty text every
  field is empty: empty strings, empty lists, no entries.
\<close>

theorem C2_extractors_total:
  assumes "lists_each_once list_of_set"
  shows "(\<exists>info jobs edus skills ps add profile.
            extract_personal_info text = Inr info \<and> map fst info = personal_info_keys \<and>
            extract_work_experience text = Inr jobs \<and>
            list_all (\<lambda>job. map fst job = job_keys) jobs \<and>
            extract_education text = Inr edus \<and> list_all (\<lambda>e. map fst e = education_keys) edus \<and>
            extract_skills list_of_set text = Inr skills \<and> map fst skills = skill_keys \<and>
            extract_projects text = Inr ps \<and> list_all (\<lambda>p. map fst p = project_keys) ps \<and>
            extract_additional_info text = Inr add \<and> map fst add = additional_keys \<and>
            structured_data list_of_set now text = Inr profile) \<and>
         extract_personal_info [] = Inr (map (\<lambda>k. (k, [])) personal_info_keys) \<and>
         extract_summary [] = [] \<and>
         extract_work_experience [] = Inr [] \<and>
         extract_education [] = Inr [] \<and>
         extract_skills list_of_set [] = Inr (map (\<lambda>k. (k, [])) skill_keys) \<and>
         extract_projects [] = Inr [] \<and>
         extract_additional_info [] = Inr (map (\<lambda>k. (k, [])) additional_keys)"
proof (intro conjI)
  from structured_data_total[of "text" list_of_set]
  show "\<exists>info jobs edus skills ps add profile.
            extract_personal_info text = Inr info \<and> map fst info = personal_info_keys \<and>
            extract_work_experience text = Inr jobs \<and>
            list_all (\<lambda>job. map fst job = job_keys) jobs \<and>
            extract_education text = Inr edus \<and> list_all (\<lambda>e. map fst e = education_keys) edus \<and>
            extract_skills list_of_set text = Inr skills \<and> map fst skills = skill_keys \<and>
            extract_projects text = Inr ps \<and> list_all (\<lambda>p. map fst p = project_keys) ps \<and>
            extract_additional_info text = Inr add \<and> map fst add = additional_keys \<and>
            structured_data list_of_set now text = Inr profile"
    using job_ok_keys project_ok_keys by metis
  show "extract_personal_info [] = Inr (map (\<lambda>k. (k, [])) personal_info_keys)" by code_simp
  show "extract_summary [] = []" by code_simp
  show "extract_work_experience [] = Inr []" by code_simp
  show "extract_education [] = Inr []" by code_simp
  show "extract_skills list_of_set [] = Inr (map (\<lambda>k. (k, [])) skill_keys)"
    using assms by (rule extract_skills_empty)
  show "extract_projects [] = Inr []" by code_simp
  show "extract_additional_info [] = Inr (map (\<lambda>k. (k, [])) additional_keys)" by code_simp
qed

text \<open>An instance: the short resume and one order of the hash table.\<close>

theorem C2_extractors_total_witness:
  "lists_each_once remdups \<and>
   (\<exists>info jobs edus skills ps add profile.
      extract_personal_info sample_resume = Inr info \<and> map fst info = personal_info_keys \<and>
      extract_work_experience sample_resume = Inr jobs \<and>
      list_all (\<lambda>job. map fst job = job_keys) jobs \<and>
      extract_education sample_resume = Inr edus \<and>
      list_all (\<lambda>e. map fst e = education_keys) edus \<and>
      extract_skills remdups sample_resume = Inr skills \<and> map fst skills = skill_keys \<and>
      extract_projects sample_resume = Inr ps \<and> list_all (\<lambda>p. map fst p = project_keys) ps \<and>
      extract_additional_info sample_resume = Inr add \<and> map fst add = additional_keys \<and>
      structured_data remdups \<lparr>year = 2026, month = 11, day = 4\<rparr> sample_resume = Inr profile)"
  using C2_extractors_total[OF lists_each_once_remdups, of sample_resume
      "\<lparr>year = 2026, month = 11, day = 4\<rparr>"] lists_each_once_remdups
  by blast

section \<open>The entries of the experience section\<close>

























section \<open>Two runs on the same text\<close>










end
